theory Spec2Isabelle
  imports Complex_Main "HOL-Library.Sublist"
begin

section \<open>The density gate of gate.py\<close>

text \<open>
  This theory embeds \<^verbatim>\<open>density2d\<close> of \<^verbatim>\<open>src/fc/gate.py\<close>. The function gates a cloud
  of events on a two-dimensional histogram of two channels: it bins the events, blurs
  the histogram, ranks the cells by blurred density, accepts the densest cells until
  their raw counts reach a target, keeps the events it finds in the accepted cells and
  hands the density field to a contour tracer.

  A float is the real number it stands for. Two places keep IEEE arithmetic as it is:
  the product \<^verbatim>\<open>gate_fraction*float(N)\<close> of line 109 is rounded to the nearest double
  before its ceiling is taken, and the division of line 124 by the sum of the blurred
  histogram gives \<open>nan\<close> and infinities for a zero sum, because the source divides
  without looking at it. The sums and products of the filter and the quotients of the
  normalization are exact.
\<close>

subsection \<open>Exceptions\<close>

text \<open>
  One constructor for each place where the call can raise: the three \<^verbatim>\<open>assert\<close>
  statements (lines 99, 105, 106), the fancy index \<^verbatim>\<open>data[:,channels]\<close> (line 100),
  \<^verbatim>\<open>int\<close> of an infinite float (line 109), the bin-edge check of \<^verbatim>\<open>np.histogram2d\<close> (line 112), the subscript
  \<^verbatim>\<open>np.nonzero(csvH >= n)[0][0]\<close> (line 135), whatever the contour library raises
  (lines 150, 151) and the \<^verbatim>\<open>raise Exception('Contour error ...')\<close> of line 166.
  \<^verbatim>\<open>np.histogram2d\<close> reads a \<^verbatim>\<open>bins\<close> argument of length one or two as bin counts, and
  an empty one as an empty grid; the embedding covers edge arrays (three edges or more)
  and answers \<open>BinsNotEdges\<close> for the other shapes.
\<close>

datatype error =
    AssertionError
  | IndexError_channels
  | OverflowError
  | ValueError_bins
  | BinsNotEdges
  | IndexError_Nidx
  | CntrError
  | ContourError

subsection \<open>Arrays\<close>

text \<open>
  \<^verbatim>\<open>data\<close> is an N x D array: its rows, and D (which numpy knows even when N = 0).
\<close>

record ndarray =
  ncols :: nat
  rows :: "real list list"

definition wf_ndarray :: "ndarray \<Rightarrow> bool" where
  "wf_ndarray data = list_all (\<lambda>r. length r = ncols data) (rows data)"

text \<open>An index into an axis of length \<open>d\<close>; numpy counts negative indices from the end.\<close>

definition norm_index :: "nat \<Rightarrow> int \<Rightarrow> nat option" where
  "norm_index d i =
     (if 0 \<le> i \<and> i < int d then Some (nat i)
      else if - int d \<le> i \<and> i < 0 then Some (nat (i + int d))
      else None)"

text \<open>\<^verbatim>\<open>data[:,channels]\<close>, line 100.\<close>

definition take_columns :: "ndarray \<Rightarrow> int list \<Rightarrow> error + real list list" where
  "take_columns data channels =
     (if list_all (\<lambda>c. norm_index (ncols data) c \<noteq> None) channels
      then Inr (map (\<lambda>r. map (\<lambda>c. r ! the (norm_index (ncols data) c)) channels) (rows data))
      else Inl IndexError_channels)"

text \<open>\<^verbatim>\<open>a[:,k]\<close>.\<close>

definition column :: "nat \<Rightarrow> 'a list list \<Rightarrow> 'a list" where
  "column k a = map (\<lambda>r. r ! k) a"

text \<open>\<^verbatim>\<open>a.ravel()\<close> of a two-dimensional array, in C order.\<close>

definition ravel :: "'a list list \<Rightarrow> 'a list" where
  "ravel a = concat a"

text \<open>\<^verbatim>\<open>np.unravel_index(i, (nr, nc))\<close> for one linear index.\<close>

definition unravel_index :: "nat \<Rightarrow> nat \<Rightarrow> nat \<times> nat" where
  "unravel_index nc i = (i div nc, i mod nc)"

text \<open>\<^verbatim>\<open>data[mask]\<close> with a boolean mask: the rows whose mask entry is true, in order.\<close>

definition boolean_index :: "'a list \<Rightarrow> bool list \<Rightarrow> 'a list" where
  "boolean_index a msk = map fst (filter snd (zip a msk))"

subsection \<open>The histogram\<close>

text \<open>
  \<^verbatim>\<open>np.digitize(v, edges)\<close> for increasing edges: the number of edges not above \<open>v\<close>.
  \<^verbatim>\<open>histogramdd\<close> then moves a value on the last edge one bin to the left, so that the
  last bin is closed, and drops the two outlier bins (numbers \<open>0\<close> and \<open>length edges\<close>).
  numpy finds the values on the last edge after rounding to a few decimals; here it is
  equality of reals.
\<close>

definition digitize :: "real list \<Rightarrow> real \<Rightarrow> nat" where
  "digitize edges v = length (filter (\<lambda>e. e \<le> v) edges)"

definition bin_number :: "real list \<Rightarrow> real \<Rightarrow> nat" where
  "bin_number edges v =
     (if v = last edges then digitize edges v - 1 else digitize edges v)"

definition diff :: "real list \<Rightarrow> real list" where
  "diff edges = map (\<lambda>(a, b). b - a) (zip edges (tl edges))"

definition histogram2d :: "real list \<Rightarrow> real list \<Rightarrow> real list \<Rightarrow> error + nat list list" where
  "histogram2d xs ys bins =
     (if length bins < 3 then Inl BinsNotEdges
      else if list_ex (\<lambda>d. d \<le> 0) (diff bins) then Inl ValueError_bins
      else Inr (map (\<lambda>i. map (\<lambda>j.
                  length (filter (\<lambda>(x, y). bin_number bins x = i + 1 \<and> bin_number bins y = j + 1)
                            (zip xs ys)))
                [0..<length bins - 1]) [0..<length bins - 1]))"

subsection \<open>The gaussian filter\<close>

text \<open>
  \<^verbatim>\<open>scipy.ndimage.filters.gaussian_filter(H, sigma, order=0, mode='constant', cval=0.0,
  truncate=6.0)\<close>: for each axis in turn, unless \<^verbatim>\<open>sigma <= 1e-15\<close>, a correlation along
  that axis with the weights \<open>exp (- k\<^sup>2 / (2 sigma\<^sup>2))\<close> for \<open>\<bar>k\<bar> \<le> lw\<close>,
  \<open>lw = int (6 sigma + 0.5)\<close>, divided by their sum; outside the array the input is \<open>0\<close>.
\<close>

definition gaussian_weights :: "real \<Rightarrow> real list" where
  "gaussian_weights sigma =
     (let lw = nat \<lfloor>6 * sigma + 1 / 2\<rfloor>;
          raw = map (\<lambda>k. exp (- (1 / 2) * (real_of_int (int k - int lw))\<^sup>2 / (sigma * sigma)))
                    [0..<2 * lw + 1]
      in map (\<lambda>w. w / sum_list raw) raw)"

definition pad0 :: "real list \<Rightarrow> int \<Rightarrow> real" where
  "pad0 xs k = (if 0 \<le> k \<and> k < int (length xs) then xs ! nat k else 0)"

definition correlate1d :: "real list \<Rightarrow> real list \<Rightarrow> real list" where
  "correlate1d w xs =
     map (\<lambda>i. sum_list (map (\<lambda>j. w ! j * pad0 xs (int i + int j - int (length w div 2)))
                             [0..<length w]))
         [0..<length xs]"

definition filter_axis1 :: "real list \<Rightarrow> real list list \<Rightarrow> real list list" where
  "filter_axis1 w a = map (correlate1d w) a"

definition filter_axis0 :: "real list \<Rightarrow> real list list \<Rightarrow> real list list" where
  "filter_axis0 w a =
     (let cols = map (\<lambda>j. correlate1d w (column j a)) [0..<length (hd a)]
      in map (\<lambda>i. map (\<lambda>c. c ! i) cols) [0..<length a])"

definition gaussian_filter :: "real \<Rightarrow> real list list \<Rightarrow> real list list" where
  "gaussian_filter sigma a =
     (if sigma > 1 / 10 ^ 15
      then filter_axis1 (gaussian_weights sigma) (filter_axis0 (gaussian_weights sigma) a)
      else a)"

subsection \<open>Division and comparison of floats\<close>

text \<open>
  \<^verbatim>\<open>bH / np.sum(bH)\<close>: numpy does not raise on a zero divisor, it gives \<open>nan\<close> for
  \<open>0/0\<close> and an infinity for \<open>x/0\<close>. A comparison with \<open>nan\<close> is false.
\<close>

datatype float64 = Fin real | PosInf | NegInf | NaN

definition np_divide :: "real \<Rightarrow> real \<Rightarrow> float64" where
  "np_divide x s =
     (if s \<noteq> 0 then Fin (x / s)
      else if 0 < x then PosInf
      else if x < 0 then NegInf
      else NaN)"

fun flt :: "float64 \<Rightarrow> float64 \<Rightarrow> bool" where
  "flt (Fin a) (Fin b) = (a < b)"
| "flt (Fin a) PosInf = True"
| "flt NegInf (Fin b) = True"
| "flt NegInf PosInf = True"
| "flt _ _ = False"

subsection \<open>Sorting, cumulative sums\<close>

text \<open>
  \<^verbatim>\<open>sorted(xs, key=key, reverse=True)\<close>. Python's sort is stable, also with
  \<^verbatim>\<open>reverse=True\<close>: the keys come out descending and elements with equal keys keep
  their order. It compares keys with \<^verbatim>\<open><\<close> only. The model is the insertion sort with
  that behaviour: an element goes in front of the first later element whose key is not
  greater than its own.
\<close>

fun insert_desc :: "('a \<Rightarrow> float64) \<Rightarrow> 'a \<Rightarrow> 'a list \<Rightarrow> 'a list" where
  "insert_desc key x [] = [x]"
| "insert_desc key x (y # ys) =
     (if flt (key x) (key y) then y # insert_desc key x ys else x # y # ys)"

definition sorted_reverse :: "('a \<Rightarrow> float64) \<Rightarrow> 'a list \<Rightarrow> 'a list" where
  "sorted_reverse key xs = foldr (insert_desc key) xs []"

text \<open>\<^verbatim>\<open>np.cumsum\<close>.\<close>

fun cumsum_from :: "nat \<Rightarrow> nat list \<Rightarrow> nat list" where
  "cumsum_from acc [] = []"
| "cumsum_from acc (x # xs) = (acc + x) # cumsum_from (acc + x) xs"

definition cumsum :: "nat list \<Rightarrow> nat list" where
  "cumsum xs = cumsum_from 0 xs"

text \<open>\<^verbatim>\<open>np.nonzero(b)[0]\<close> of a one-dimensional boolean array: the indices that hold true.\<close>

definition nonzero :: "bool list \<Rightarrow> nat list" where
  "nonzero b = filter (\<lambda>k. b ! k) [0..<length b]"

subsection \<open>The number of points to keep, line 109\<close>

text \<open>
  \<^verbatim>\<open>n = int(np.ceil(gate_fraction*float(data_ch.shape[0])))\<close>. The product of two doubles
  is the double nearest to the exact product, ties to the even significand: a number
  \<open>x\<close> with \<open>2\<^sup>e \<le> \<bar>x\<bar> < 2\<^sup>e\<^sup>+\<^sup>1\<close> is rounded to a multiple of \<open>2\<^sup>e\<^sup>-\<^sup>5\<^sup>2\<close>. A result of
  magnitude \<open>2\<^sup>1\<^sup>0\<^sup>2\<^sup>4\<close> or more is an infinity, its ceiling too, and \<^verbatim>\<open>int\<close> raises
  \<^verbatim>\<open>OverflowError\<close> on it. Below \<open>2\<^sup>-\<^sup>1\<^sup>0\<^sup>2\<^sup>2\<close> a double has fewer digits than here; the
  ceiling is the same.
\<close>

definition round_half_even :: "real \<Rightarrow> int" where
  "round_half_even y =
     (if y - of_int \<lfloor>y\<rfloor> < 1 / 2 then \<lfloor>y\<rfloor>
      else if 1 / 2 < y - of_int \<lfloor>y\<rfloor> then \<lfloor>y\<rfloor> + 1
      else if even \<lfloor>y\<rfloor> then \<lfloor>y\<rfloor> else \<lfloor>y\<rfloor> + 1)"

definition binade :: "real \<Rightarrow> int" where
  "binade x = \<lfloor>log 2 \<bar>x\<bar>\<rfloor>"

definition round_double :: "real \<Rightarrow> real" where
  "round_double x =
     (if x = 0 then 0
      else power_int 2 (binade x - 52)
             * of_int (round_half_even (x / power_int 2 (binade x - 52))))"

definition points_to_keep :: "real \<Rightarrow> nat \<Rightarrow> error + int" where
  "points_to_keep gate_fraction N =
     (if 2 ^ 1024 \<le> \<bar>round_double (gate_fraction * real N)\<bar> then Inl OverflowError
      else Inr \<lceil>round_double (gate_fraction * real N)\<rceil>)"

subsection \<open>density2d, lines 98 to 134: up to the cumulative counts\<close>

record ranked =
  r_data_ch :: "real list list"
  r_n :: int
  r_H :: "nat list list"
  r_bH :: "real list list"
  r_D :: "float64 list list"
  r_vD :: "float64 list"
  r_vH :: "nat list"
  r_sidx :: "nat list"
  r_svH :: "nat list"
  r_csvH :: "nat list"

definition normalize :: "real list list \<Rightarrow> float64 list list" where
  "normalize bH = map (map (\<lambda>v. np_divide v (sum_list (concat bH)))) bH"

definition rank_cells :: "real list list \<Rightarrow> int \<Rightarrow> nat list list \<Rightarrow> real \<Rightarrow> ranked" where
  "rank_cells data_ch n H sigma =
     (let bH = gaussian_filter sigma (map (map real) H);
          D = normalize bH;
          vD = ravel D;
          vH = ravel H;
          sidx = sorted_reverse (\<lambda>idx. vD ! idx) [0..<length vD];
          svH = map (\<lambda>i. vH ! i) sidx;
          csvH = cumsum svH
      in \<lparr>r_data_ch = data_ch, r_n = n, r_H = H, r_bH = bH, r_D = D, r_vD = vD, r_vH = vH,
          r_sidx = sidx, r_svH = svH, r_csvH = csvH\<rparr>)"

definition density2d_ranked ::
  "ndarray \<Rightarrow> int list \<Rightarrow> real list \<Rightarrow> real \<Rightarrow> real \<Rightarrow> error + ranked" where
  "density2d_ranked data channels bins sigma gate_fraction =
     (if length channels \<noteq> 2 then Inl AssertionError
      else case take_columns data channels of
        Inl e \<Rightarrow> Inl e
      | Inr data_ch \<Rightarrow>
          if \<not> length data_ch > 1 then Inl AssertionError
          else case points_to_keep gate_fraction (length data_ch) of
            Inl e \<Rightarrow> Inl e
          | Inr n \<Rightarrow>
              (case histogram2d (column 0 data_ch) (column 1 data_ch) bins of
                 Inl e \<Rightarrow> Inl e
               | Inr H \<Rightarrow> Inr (rank_cells data_ch n H sigma)))"

subsection \<open>density2d, lines 135 to 149: the accepted cells, the gate, the contour grid\<close>

record gate_locals =
  g_Nidx :: nat
  g_accepted :: "(nat \<times> nat) set"
  g_mask :: "bool list"
  g_gated_data :: "real list list"
  g_x :: "real list list"
  g_y :: "real list list"
  g_D :: "float64 list list"
  g_level :: float64

text \<open>
  \<^verbatim>\<open>tuple(event) in accepted\<close>: the pair of the event's two channel values is looked up
  in the set of index pairs. Python compares a float with an integer by value.
\<close>

definition tuple_in :: "real list \<Rightarrow> (nat \<times> nat) set \<Rightarrow> bool" where
  "tuple_in event accepted = ((event ! 0, event ! 1) \<in> (\<lambda>(i, j). (real i, real j)) ` accepted)"

text \<open>\<^verbatim>\<open>np.mgrid[s:e, s:e]\<close> for integral \<open>s\<close> and \<open>e\<close>.\<close>

definition mgrid :: "int \<Rightarrow> int \<Rightarrow> real list list \<times> real list list" where
  "mgrid s e =
     (map (\<lambda>a. map (\<lambda>b. real_of_int a) [s..e - 1]) [s..e - 1],
      map (\<lambda>a. map (\<lambda>b. real_of_int b) [s..e - 1]) [s..e - 1])"

definition select_and_gate :: "ndarray \<Rightarrow> real list \<Rightarrow> ranked \<Rightarrow> error + gate_locals" where
  "select_and_gate data bins R =
     (case nonzero (map (\<lambda>c. r_n R \<le> int c) (r_csvH R)) of
        [] \<Rightarrow> Inl IndexError_Nidx
      | Nidx # _ \<Rightarrow>
          let accepted = set (map (unravel_index (length bins - 1)) (take (Nidx + 1) (r_sidx R)));
              msk = map (\<lambda>event. tuple_in event accepted) (r_data_ch R);
              gated_data = boolean_index (rows data) msk;
              s_ind = \<lceil>bins ! 0\<rceil>;
              e_ind = \<lceil>last bins\<rceil>
          in Inr \<lparr>g_Nidx = Nidx, g_accepted = accepted, g_mask = msk,
                  g_gated_data = gated_data,
                  g_x = fst (mgrid s_ind e_ind), g_y = snd (mgrid s_ind e_ind),
                  g_D = r_D R, g_level = r_vD R ! (r_sidx R ! Nidx)\<rparr>)"

definition density2d_locals ::
  "ndarray \<Rightarrow> int list \<Rightarrow> real list \<Rightarrow> real \<Rightarrow> real \<Rightarrow> error + gate_locals" where
  "density2d_locals data channels bins sigma gate_fraction =
     (case density2d_ranked data channels bins sigma gate_fraction of
        Inl e \<Rightarrow> Inl e
      | Inr R \<Rightarrow> select_and_gate data bins R)"

subsection \<open>density2d, lines 150 to 170: the contours\<close>

text \<open>
  \<^verbatim>\<open>matplotlib._cntr.Cntr(x,y,D).trace(level)\<close> is a library written in C; it is a
  parameter of the embedding. It returns a list of arrays, the vertex arrays first and
  as many arrays of path codes after them, or raises (\<open>None\<close>).
\<close>

datatype cntr_array = Vertices "(real \<times> real) list" | Codes "nat list"

type_synonym tracer =
  "real list list \<Rightarrow> real list list \<Rightarrow> float64 list list \<Rightarrow> float64 \<Rightarrow> cntr_array list option"

text \<open>\<^verbatim>\<open>np.all((codes==1)|(codes==2))\<close>.\<close>

fun codes_familiar :: "cntr_array \<Rightarrow> bool" where
  "codes_familiar (Codes cs) = list_all (\<lambda>c. c = 1 \<or> c = 2) cs"
| "codes_familiar (Vertices vs) = list_all (\<lambda>(a, b). (a = 1 \<or> a = 2) \<and> (b = 1 \<or> b = 2)) vs"

text \<open>The loop of lines 160 to 168, over the indices still to visit.\<close>

fun collect_contours ::
  "cntr_array list \<Rightarrow> nat \<Rightarrow> nat list \<Rightarrow> cntr_array list \<Rightarrow> error + cntr_array list" where
  "collect_contours tr num_cntrs [] cntr = Inr cntr"
| "collect_contours tr num_cntrs (idx # rest) cntr =
     (if \<not> codes_familiar (tr ! (num_cntrs + idx)) then Inl ContourError
      else collect_contours tr num_cntrs rest (cntr @ [tr ! idx]))"

definition density2d ::
  "tracer \<Rightarrow> ndarray \<Rightarrow> int list \<Rightarrow> real list \<Rightarrow> real \<Rightarrow> real
     \<Rightarrow> error + (real list list \<times> cntr_array list)" where
  "density2d trace data channels bins sigma gate_fraction =
     (case density2d_locals data channels bins sigma gate_fraction of
        Inl e \<Rightarrow> Inl e
      | Inr L \<Rightarrow>
          (case trace (g_x L) (g_y L) (g_D L) (g_level L) of
             None \<Rightarrow> Inl CntrError
           | Some tr \<Rightarrow>
               (case collect_contours tr (length tr div 2) [0..<length tr div 2] [] of
                  Inl e \<Rightarrow> Inl e
                | Inr cntr \<Rightarrow> Inr (g_gated_data L, cntr))))"

subsection \<open>Vocabulary of the claims\<close>

text \<open>
  Cell \<open>i\<close> may stand before cell \<open>j\<close> in a ranking by descending density with ties
  in index order: the density of \<open>i\<close> is not below that of \<open>j\<close>, and if neither is
  below the other then \<open>i < j\<close>.
\<close>

definition ranks_before :: "float64 list \<Rightarrow> nat \<Rightarrow> nat \<Rightarrow> bool" where
  "ranks_before vD i j = (\<not> flt (vD ! i) (vD ! j) \<and> (\<not> flt (vD ! j) (vD ! i) \<longrightarrow> i < j))"

text \<open>
  On such a set of keys, being not below is transitive, as it is for numbers.
\<close>

definition weakly_ordered :: "float64 set \<Rightarrow> bool" where
  "weakly_ordered K = (\<forall>a\<in>K. \<forall>b\<in>K. \<forall>c\<in>K. \<not> flt a b \<longrightarrow> \<not> flt b c \<longrightarrow> \<not> flt a c)"

text \<open>Grids: every entry is non-negative; the grid has \<open>nr\<close> rows of \<open>nc\<close> entries.\<close>

definition nonneg_grid :: "real list list \<Rightarrow> bool" where
  "nonneg_grid a = (\<forall>r\<in>set a. \<forall>v\<in>set r. 0 \<le> v)"

definition has_shape :: "nat \<Rightarrow> nat \<Rightarrow> 'a list list \<Rightarrow> bool" where
  "has_shape nr nc a = (length a = nr \<and> (\<forall>r\<in>set a. length r = nc))"

section \<open>Properties\<close>

subsection \<open>Auxiliary facts\<close>

lemma boolean_index_subseq: "subseq (boolean_index a msk) a"
proof -
  have "subseq (map fst (filter snd (zip a msk))) (map fst (zip a msk))"
    by (intro subseq_map subseq_filter_left)
  moreover have "subseq (map fst (zip a msk)) a"
    by (induction a arbitrary: msk) (case_tac msk; simp)+
  ultimately show ?thesis
    unfolding boolean_index_def by (rule subseq_order.trans)
qed


subsection \<open>Rounding to the nearest double\<close>

lemma round_half_even_of_int [simp]: "round_half_even (of_int k) = k"
  by (simp add: round_half_even_def)

lemma round_half_even_bounds:
  "\<lfloor>y\<rfloor> \<le> round_half_even y" "round_half_even y \<le> \<lfloor>y\<rfloor> + 1"
  by (simp_all add: round_half_even_def)

lemma round_half_even_mono:
  assumes "a \<le> b"
  shows "round_half_even a \<le> round_half_even b"
proof (cases "\<lfloor>a\<rfloor> = \<lfloor>b\<rfloor>")
  case True
  then have "a - of_int \<lfloor>a\<rfloor> \<le> b - of_int \<lfloor>b\<rfloor>" using assms by simp
  then show ?thesis using True by (auto simp: round_half_even_def)
next
  case False
  then have "\<lfloor>a\<rfloor> < \<lfloor>b\<rfloor>" using floor_mono[OF assms] by simp
  then have "round_half_even a \<le> \<lfloor>b\<rfloor>" using round_half_even_bounds(2)[of a] by simp
  then show ?thesis using round_half_even_bounds(1)[of b] by simp
qed

lemma round_half_even_minus: "round_half_even (- y) = - round_half_even y"
proof (cases "y = of_int \<lfloor>y\<rfloor>")
  case True
  then obtain k where k: "y = of_int k" by blast
  have "round_half_even (of_int (- k)) = - k" by (rule round_half_even_of_int)
  then show ?thesis unfolding k by simp
next
  case False
  then have "\<lceil>y\<rceil> = \<lfloor>y\<rfloor> + 1" by (simp add: ceiling_altdef)
  moreover have "\<lfloor>- y\<rfloor> = - \<lceil>y\<rceil>" by (simp add: ceiling_def)
  ultimately have f: "\<lfloor>- y\<rfloor> = - \<lfloor>y\<rfloor> - 1" by simp
  show ?thesis unfolding round_half_even_def f
    by auto
qed

lemma powr_power_int: "(2::real) powr real_of_int n = power_int 2 n"
  by (rule powr_real_of_int') simp_all

lemma binade_bounds:
  assumes "x \<noteq> 0"
  shows "power_int 2 (binade x) \<le> \<bar>x\<bar>" "\<bar>x\<bar> < power_int 2 (binade x + 1)"
proof -
  have b: "2 powr (real_of_int (binade x)) \<le> \<bar>x\<bar> \<and> \<bar>x\<bar> < 2 powr (real_of_int (binade x) + 1)"
    using floor_log_eq_powr_iff[of "\<bar>x\<bar>" 2 "binade x"] assms by (simp add: binade_def)
  have e: "real_of_int (binade x) + 1 = real_of_int (binade x + 1)" by simp
  show "power_int 2 (binade x) \<le> \<bar>x\<bar>" using b by (simp only: powr_power_int)
  show "\<bar>x\<bar> < power_int 2 (binade x + 1)" using b unfolding e by (simp only: powr_power_int)
qed

lemma binade_eqI:
  assumes "power_int 2 e \<le> \<bar>x\<bar>" "\<bar>x\<bar> < power_int 2 (e + 1)"
  shows "binade x = e"
proof -
  have "(0::real) < power_int 2 e" by simp
  then have pos: "0 < \<bar>x\<bar>" using assms(1) by linarith
  have e: "real_of_int e + 1 = real_of_int (e + 1)" by simp
  have "2 powr (real_of_int e) \<le> \<bar>x\<bar> \<and> \<bar>x\<bar> < 2 powr (real_of_int e + 1)"
    unfolding e using assms by (simp only: powr_power_int)
  then show ?thesis
    unfolding binade_def using floor_log_eq_powr_iff[of "\<bar>x\<bar>" 2 e] pos by simp
qed

lemma binade_minus [simp]: "binade (- x) = binade x"
  by (simp add: binade_def)

lemma binade_mono:
  assumes "0 < x" "x \<le> y"
  shows "binade x \<le> binade y"
  unfolding binade_def using assms by (intro floor_mono) simp

lemma round_double_minus: "round_double (- x) = - round_double x"
  by (simp add: round_double_def round_half_even_minus)

lemma round_double_range:
  assumes "0 < x"
  shows "power_int 2 (binade x) \<le> round_double x" "round_double x \<le> power_int 2 (binade x + 1)"
proof -
  let ?e = "binade x"
  let ?u = "power_int 2 (?e - 52) :: real"
  have u: "0 < ?u" by simp
  have x: "power_int 2 ?e \<le> x" "x < power_int 2 (?e + 1)"
    using binade_bounds[of x] assms by simp_all
  have lo: "power_int 2 ?e = ?u * 2 ^ 52"
    using power_int_add[of "2::real" "?e - 52" 52] by simp
  have hi: "power_int 2 (?e + 1) = ?u * 2 ^ 53"
    using power_int_add[of "2::real" "?e - 52" 53] by (simp add: add.commute)
  have r52: "round_half_even (2 ^ 52) = 2 ^ 52"
    using round_half_even_of_int[of "2 ^ 52"] by simp
  have r53: "round_half_even (2 ^ 53) = 2 ^ 53"
    using round_half_even_of_int[of "2 ^ 53"] by simp
  have "2 ^ 52 \<le> x / ?u" using x(1) u unfolding lo by (simp add: pos_le_divide_eq mult.commute)
  then have "round_half_even (2 ^ 52) \<le> round_half_even (x / ?u)"
    by (rule round_half_even_mono)
  then have a: "2 ^ 52 \<le> round_half_even (x / ?u)" unfolding r52 .
  have "x / ?u \<le> 2 ^ 53" using x(2) u unfolding hi by (simp add: pos_divide_le_eq mult.commute)
  then have "round_half_even (x / ?u) \<le> round_half_even (2 ^ 53)"
    by (rule round_half_even_mono)
  then have b: "round_half_even (x / ?u) \<le> 2 ^ 53" unfolding r53 .
  have rd: "round_double x = ?u * of_int (round_half_even (x / ?u))"
    using assms by (simp add: round_double_def)
  have "(2 ^ 52 :: real) \<le> of_int (round_half_even (x / ?u))"
    using a of_int_le_iff[of "2 ^ 52" "round_half_even (x / ?u)", where ?'a = real] by simp
  then have "?u * 2 ^ 52 \<le> ?u * of_int (round_half_even (x / ?u))"
    using u by (intro mult_left_mono) simp_all
  then show "power_int 2 ?e \<le> round_double x" unfolding rd lo .
  have "of_int (round_half_even (x / ?u)) \<le> (2 ^ 53 :: real)"
    using b of_int_le_iff[of "round_half_even (x / ?u)" "2 ^ 53", where ?'a = real] by simp
  then have "?u * of_int (round_half_even (x / ?u)) \<le> ?u * 2 ^ 53"
    using u by (intro mult_left_mono) simp_all
  then show "round_double x \<le> power_int 2 (?e + 1)" unfolding rd hi .
qed

lemma round_double_pos: "0 < x \<Longrightarrow> 0 < round_double x"
  using round_double_range(1)[of x] zero_less_power_int[of "2::real" "binade x"] by linarith

lemma round_double_mono_pos:
  assumes "0 < x" "x \<le> y"
  shows "round_double x \<le> round_double y"
proof (cases "binade x = binade y")
  case True
  let ?u = "power_int 2 (binade y - 52) :: real"
  have u: "0 < ?u" by simp
  have "x / ?u \<le> y / ?u" using assms(2) u by (simp add: divide_right_mono)
  then have "round_half_even (x / ?u) \<le> round_half_even (y / ?u)" by (rule round_half_even_mono)
  then have "?u * of_int (round_half_even (x / ?u)) \<le> ?u * of_int (round_half_even (y / ?u))"
    using u by (intro mult_left_mono) simp_all
  then show ?thesis using assms True by (simp add: round_double_def)
next
  case False
  then have lt: "binade x + 1 \<le> binade y" using binade_mono[OF assms] by simp
  have y: "0 < y" using assms by simp
  have "round_double x \<le> power_int 2 (binade x + 1)" using round_double_range(2)[OF assms(1)] .
  also have "\<dots> \<le> power_int 2 (binade y)" using lt by (intro power_int_increasing) simp_all
  also have "\<dots> \<le> round_double y" using round_double_range(1)[OF y] .
  finally show ?thesis .
qed

lemma round_double_mono:
  assumes "x \<le> y"
  shows "round_double x \<le> round_double y"
proof -
  consider "0 < x" | "x = 0" | "x < 0" "y < 0" | "x < 0" "0 \<le> y" by linarith
  then show ?thesis
  proof cases
    case 1
    then show ?thesis using assms by (rule round_double_mono_pos)
  next
    case 2
    then show ?thesis
      using assms round_double_pos[of y] by (cases "y = 0") (auto simp: round_double_def)
  next
    case 3
    then have "round_double (- y) \<le> round_double (- x)"
      using assms by (intro round_double_mono_pos) simp_all
    then show ?thesis by (simp add: round_double_minus)
  next
    case 4
    have "0 < round_double (- x)" using 4(1) by (intro round_double_pos) simp
    then have "round_double x < 0" by (simp add: round_double_minus)
    moreover have "0 \<le> round_double y"
      using 4(2) round_double_pos[of y] by (cases "y = 0") (auto simp: round_double_def)
    ultimately show ?thesis by simp
  qed
qed

lemma round_double_eqI:
  assumes "power_int 2 e \<le> \<bar>x\<bar>" "\<bar>x\<bar> < power_int 2 (e + 1)"
  shows "round_double x
         = power_int 2 (e - 52) * of_int (round_half_even (x / power_int 2 (e - 52)))"
proof -
  have "(0::real) < power_int 2 e" by simp
  then have "0 < \<bar>x\<bar>" using assms(1) by linarith
  then have "x \<noteq> 0" by simp
  then show ?thesis using binade_eqI[OF assms] by (simp add: round_double_def)
qed

lemma round_double_0 [simp]: "round_double 0 = 0"
  by (simp add: round_double_def)

lemma round_double_exact_3_2: "round_double (3 / 2) = 3 / 2"
  using round_double_eqI[of 0 "3 / 2"] by (simp add: round_half_even_def)

lemma round_double_exact_3: "round_double 3 = 3"
  using round_double_eqI[of 1 3] by (simp add: round_half_even_def)

lemma points_to_keep_Inr:
  assumes "points_to_keep gate_fraction N = Inr n"
  shows "n = \<lceil>round_double (gate_fraction * real N)\<rceil>"
    and "\<bar>round_double (gate_fraction * real N)\<bar> < 2 ^ 1024"
  using assms unfolding points_to_keep_def by (simp_all split: if_splits)

lemma points_to_keep_mono:
  assumes "f1 \<le> f2" and "points_to_keep f1 N = Inr n1" and "points_to_keep f2 N = Inr n2"
  shows "n1 \<le> n2"
proof -
  have "f1 * real N \<le> f2 * real N" using assms(1) by (simp add: mult_right_mono)
  then have "round_double (f1 * real N) \<le> round_double (f2 * real N)"
    by (rule round_double_mono)
  then show ?thesis
    unfolding points_to_keep_Inr(1)[OF assms(2)] points_to_keep_Inr(1)[OF assms(3)]
    by (rule ceiling_mono)
qed

subsection \<open>The stages of density2d\<close>

lemma nonzero_sorted: "sorted_wrt (<) (nonzero b)"
  unfolding nonzero_def by (rule sorted_wrt_filter) simp

lemma set_nonzero: "set (nonzero b) = {k. k < length b \<and> b ! k}"
  unfolding nonzero_def by auto

lemma nonzero_Cons:
  assumes "nonzero b = k # rest"
  shows "k < length b" "b ! k" "\<And>j. j < k \<Longrightarrow> \<not> b ! j"
proof -
  have "k \<in> set (nonzero b)" using assms by simp
  then show "k < length b" "b ! k" by (simp_all add: set_nonzero)
  fix j assume "j < k"
  show "\<not> b ! j"
  proof
    assume "b ! j"
    moreover have "j < length b" using \<open>j < k\<close> \<open>k < length b\<close> by simp
    ultimately have "j \<in> set (nonzero b)" by (simp add: set_nonzero)
    moreover have "\<forall>y \<in> set rest. k < y"
      using nonzero_sorted[of b] assms by simp
    ultimately show False using assms \<open>j < k\<close> by auto
  qed
qed

lemma nonzero_Nil: "nonzero b = [] \<longleftrightarrow> (\<forall>k<length b. \<not> b ! k)"
  unfolding nonzero_def by (auto simp: filter_empty_conv)

lemma length_boolean_index_mono:
  "length m1 = length m2 \<Longrightarrow> (\<And>i. i < length m1 \<Longrightarrow> m1 ! i \<Longrightarrow> m2 ! i)
     \<Longrightarrow> length (boolean_index a m1) \<le> length (boolean_index a m2)"
proof (induction m1 m2 arbitrary: a rule: list_induct2)
  case Nil
  then show ?case by (simp add: boolean_index_def)
next
  case (Cons x xs y ys)
  show ?case
  proof (cases a)
    case Nil
    then show ?thesis by (simp add: boolean_index_def)
  next
    case (Cons r rs)
    have "length (boolean_index rs xs) \<le> length (boolean_index rs ys)"
      using Cons.prems[of "Suc i" for i] by (intro Cons.IH) auto
    moreover have "x \<Longrightarrow> y" using Cons.prems[of 0] by simp
    ultimately show ?thesis using Cons by (auto simp: boolean_index_def)
  qed
qed

lemma density2d_ranked_Inr:
  assumes "density2d_ranked data channels bins sigma gate_fraction = Inr R"
  obtains data_ch n H where
    "length channels = 2"
    "take_columns data channels = Inr data_ch"
    "1 < length data_ch"
    "points_to_keep gate_fraction (length data_ch) = Inr n"
    "histogram2d (column 0 data_ch) (column 1 data_ch) bins = Inr H"
    "R = rank_cells data_ch n H sigma"
  using assms unfolding density2d_ranked_def
  by (auto split: if_splits sum.splits)

lemma density2d_Inr:
  assumes "density2d trace data channels bins sigma gate_fraction = Inr (gated_data, cntr)"
  obtains L where
    "density2d_locals data channels bins sigma gate_fraction = Inr L"
    "gated_data = g_gated_data L"
  using assms unfolding density2d_def
  by (auto split: sum.splits option.splits)

lemma density2d_locals_Inr:
  assumes "density2d_locals data channels bins sigma gate_fraction = Inr L"
  obtains R where
    "density2d_ranked data channels bins sigma gate_fraction = Inr R"
    "select_and_gate data bins R = Inr L"
  using assms unfolding density2d_locals_def
  by (auto split: sum.splits)

lemma select_and_gate_Inr:
  assumes "select_and_gate data bins R = Inr L"
  shows "nonzero (map (\<lambda>c. r_n R \<le> int c) (r_csvH R)) \<noteq> []"
    and "g_Nidx L = hd (nonzero (map (\<lambda>c. r_n R \<le> int c) (r_csvH R)))"
    and "g_accepted L =
           set (map (unravel_index (length bins - 1)) (take (g_Nidx L + 1) (r_sidx R)))"
    and "g_mask L = map (\<lambda>event. tuple_in event (g_accepted L)) (r_data_ch R)"
    and "g_gated_data L = boolean_index (rows data) (g_mask L)"
    and "g_x L = fst (mgrid \<lceil>bins ! 0\<rceil> \<lceil>last bins\<rceil>)"
    and "g_y L = snd (mgrid \<lceil>bins ! 0\<rceil> \<lceil>last bins\<rceil>)"
    and "g_D L = r_D R"
    and "g_level L = r_vD R ! (r_sidx R ! g_Nidx L)"
  using assms unfolding select_and_gate_def
  by (auto simp: Let_def split: list.splits)

lemma rank_cells_n:
  "rank_cells data_ch n2 H sigma = (rank_cells data_ch n1 H sigma)\<lparr>r_n := n2\<rparr>"
  by (simp add: rank_cells_def Let_def)


lemma r_n_rank_cells [simp]: "r_n (rank_cells data_ch n H sigma) = n"
  by (simp add: rank_cells_def Let_def)

lemma r_data_ch_rank_cells [simp]: "r_data_ch (rank_cells data_ch n H sigma) = data_ch"
  by (simp add: rank_cells_def Let_def)

lemma Nidx_mono:
  assumes "n1 \<le> n2"
    and "nonzero (map (\<lambda>c. n1 \<le> int c) cs) = k1 # rest1"
    and "nonzero (map (\<lambda>c. n2 \<le> int c) cs) = k2 # rest2"
  shows "k1 \<le> k2"
proof (rule ccontr)
  assume "\<not> k1 \<le> k2"
  then have "k2 < k1" by simp
  then have "\<not> map (\<lambda>c. n1 \<le> int c) cs ! k2"
    using nonzero_Cons(3)[OF assms(2)] by blast
  moreover have "k2 < length cs" "map (\<lambda>c. n2 \<le> int c) cs ! k2"
    using nonzero_Cons(1,2)[OF assms(3)] by simp_all
  ultimately show False using assms(1) by simp
qed

lemma tuple_in_mono: "A \<subseteq> B \<Longrightarrow> tuple_in event A \<Longrightarrow> tuple_in event B"
  unfolding tuple_in_def using image_mono by blast

lemma weakly_ordered_subset: "A \<subseteq> B \<Longrightarrow> weakly_ordered B \<Longrightarrow> weakly_ordered A"
  unfolding weakly_ordered_def by blast

lemma weakly_orderedD:
  "weakly_ordered K \<Longrightarrow> a \<in> K \<Longrightarrow> b \<in> K \<Longrightarrow> c \<in> K
     \<Longrightarrow> \<not> flt a b \<Longrightarrow> \<not> flt b c \<Longrightarrow> \<not> flt a c"
  unfolding weakly_ordered_def by blast

lemma flt_asym: "flt a b \<Longrightarrow> \<not> flt b a"
  by (cases a; cases b) auto

lemma weakly_ordered_Fin:
  assumes "\<forall>v\<in>K. \<exists>r. v = Fin r"
  shows "weakly_ordered K"
  unfolding weakly_ordered_def
proof (intro ballI impI)
  fix a b c
  assume "a \<in> K" "b \<in> K" "c \<in> K" and ab: "\<not> flt a b" and bc: "\<not> flt b c"
  then obtain ra rb rc where "a = Fin ra" "b = Fin rb" "c = Fin rc"
    using assms by blast
  then show "\<not> flt a c" using ab bc by simp
qed

lemma weakly_ordered_NaN: "(\<forall>v\<in>K. v = NaN) \<Longrightarrow> weakly_ordered K"
  unfolding weakly_ordered_def by auto

lemma set_insert_desc [simp]: "set (insert_desc key x ys) = insert x (set ys)"
  by (induction ys) auto

lemma length_insert_desc [simp]: "length (insert_desc key x ys) = Suc (length ys)"
  by (induction ys) auto

lemma distinct_insert_desc: "x \<notin> set ys \<Longrightarrow> distinct ys \<Longrightarrow> distinct (insert_desc key x ys)"
  by (induction ys) auto

lemma set_sorted_reverse [simp]: "set (sorted_reverse key xs) = set xs"
  unfolding sorted_reverse_def by (induction xs) auto

lemma length_sorted_reverse [simp]: "length (sorted_reverse key xs) = length xs"
  unfolding sorted_reverse_def by (induction xs) auto

lemma distinct_sorted_reverse: "distinct xs \<Longrightarrow> distinct (sorted_reverse key xs)"
  unfolding sorted_reverse_def
proof (induction xs)
  case Nil
  then show ?case by simp
next
  case (Cons x xs)
  then have "x \<notin> set (foldr (insert_desc key) xs [])"
    using set_sorted_reverse[of key xs] by (simp add: sorted_reverse_def)
  then show ?case using Cons by (simp add: distinct_insert_desc)
qed

lemma sorted_insert_desc:
  assumes "sorted_wrt (ranks_before vD) ys"
    and "\<forall>y\<in>set ys. x < y"
    and "weakly_ordered ((\<lambda>i. vD ! i) ` insert x (set ys))"
  shows "sorted_wrt (ranks_before vD) (insert_desc (\<lambda>idx. vD ! idx) x ys)"
  using assms
proof (induction ys)
  case Nil
  then show ?case by simp
next
  case (Cons y ys)
  have wo: "weakly_ordered ((\<lambda>i. vD ! i) ` insert x (set ys))"
    by (rule weakly_ordered_subset[OF _ Cons.prems(3)]) auto
  show ?case
  proof (cases "flt (vD ! x) (vD ! y)")
    case True
    have "sorted_wrt (ranks_before vD) (insert_desc (\<lambda>idx. vD ! idx) x ys)"
      using Cons.IH Cons.prems wo by simp
    moreover have "ranks_before vD y x"
      using True flt_asym by (simp add: ranks_before_def)
    ultimately show ?thesis using True Cons.prems(1) by simp
  next
    case False
    have "ranks_before vD x z" if "z \<in> set (y # ys)" for z
    proof (cases "z = y")
      case True
      then show ?thesis using False Cons.prems(2) by (simp add: ranks_before_def)
    next
      case False
      then have z: "z \<in> set ys" using that by simp
      then have "\<not> flt (vD ! y) (vD ! z)"
        using Cons.prems(1) by (simp add: ranks_before_def)
      then have "\<not> flt (vD ! x) (vD ! z)"
        using \<open>\<not> flt (vD ! x) (vD ! y)\<close> z
        by (intro weakly_orderedD[OF Cons.prems(3), of "vD ! x" "vD ! y" "vD ! z"]) auto
      then show ?thesis using Cons.prems(2) z by (simp add: ranks_before_def)
    qed
    then show ?thesis using False Cons.prems(1) by simp
  qed
qed

lemma sorted_sorted_reverse:
  assumes "sorted_wrt (<) xs" and "weakly_ordered ((\<lambda>i. vD ! i) ` set xs)"
  shows "sorted_wrt (ranks_before vD) (sorted_reverse (\<lambda>idx. vD ! idx) xs)"
  using assms
proof (induction xs)
  case Nil
  then show ?case by (simp add: sorted_reverse_def)
next
  case (Cons x xs)
  have wo: "weakly_ordered ((\<lambda>i. vD ! i) ` set xs)"
    by (rule weakly_ordered_subset[OF _ Cons.prems(2)]) auto
  have "sorted_wrt (ranks_before vD) (sorted_reverse (\<lambda>idx. vD ! idx) xs)"
    using Cons.IH Cons.prems(1) wo by simp
  moreover have "\<forall>y\<in>set (sorted_reverse (\<lambda>idx. vD ! idx) xs). x < y"
    using Cons.prems(1) by simp
  moreover have "weakly_ordered ((\<lambda>i. vD ! i) ` insert x (set (sorted_reverse (\<lambda>idx. vD ! idx) xs)))"
    using Cons.prems(2) by simp
  ultimately have "sorted_wrt (ranks_before vD)
      (insert_desc (\<lambda>idx. vD ! idx) x (sorted_reverse (\<lambda>idx. vD ! idx) xs))"
    by (rule sorted_insert_desc)
  then show ?case by (simp add: sorted_reverse_def)
qed
lemma gaussian_weights_nonneg:
  assumes "w \<in> set (gaussian_weights sigma)"
  shows "0 \<le> w"
proof -
  define lw where "lw = nat \<lfloor>6 * sigma + 1 / 2\<rfloor>"
  define raw where "raw = map (\<lambda>k. exp (- (1 / 2) * (real_of_int (int k - int lw))\<^sup>2 / (sigma * sigma)))
                    [0..<2 * lw + 1]"
  have nn: "\<And>x. x \<in> set raw \<Longrightarrow> 0 \<le> x" unfolding raw_def by auto
  have "gaussian_weights sigma = map (\<lambda>w. w / sum_list raw) raw"
    unfolding gaussian_weights_def Let_def raw_def lw_def ..
  then obtain e where "e \<in> set raw" "w = e / sum_list raw"
    using assms by auto
  moreover have "0 \<le> sum_list raw" using nn by (rule sum_list_nonneg)
  ultimately show ?thesis using nn by simp
qed

lemma pad0_nonneg:
  assumes "\<forall>v\<in>set xs. 0 \<le> v"
  shows "0 \<le> pad0 xs k"
proof (cases "0 \<le> k \<and> k < int (length xs)")
  case True
  then have "xs ! nat k \<in> set xs" by (intro nth_mem) linarith
  then show ?thesis using assms True by (simp add: pad0_def)
next
  case False
  then show ?thesis by (auto simp: pad0_def)
qed

lemma length_correlate1d [simp]: "length (correlate1d w xs) = length xs"
  unfolding correlate1d_def by simp

lemma correlate1d_nonneg:
  assumes w: "\<forall>v\<in>set w. 0 \<le> v" and xs: "\<forall>v\<in>set xs. 0 \<le> v"
  shows "\<forall>v\<in>set (correlate1d w xs). 0 \<le> v"
proof
  fix v assume "v \<in> set (correlate1d w xs)"
  then obtain i where
    v: "v = sum_list (map (\<lambda>j. w ! j * pad0 xs (int i + int j - int (length w div 2))) [0..<length w])"
    unfolding correlate1d_def by auto
  have t: "0 \<le> w ! j * pad0 xs (int i + int j - int (length w div 2))" if "j < length w" for j
  proof (rule mult_nonneg_nonneg)
    show "0 \<le> w ! j" using that w nth_mem by blast
    show "0 \<le> pad0 xs (int i + int j - int (length w div 2))" by (rule pad0_nonneg[OF xs])
  qed
  show "0 \<le> v" unfolding v
  proof (rule sum_list_nonneg)
    fix x assume "x \<in> set (map (\<lambda>j. w ! j * pad0 xs (int i + int j - int (length w div 2))) [0..<length w])"
    then obtain j where "j < length w" "x = w ! j * pad0 xs (int i + int j - int (length w div 2))"
      by auto
    then show "0 \<le> x" using t by simp
  qed
qed

lemma filter_axis1_nonneg:
  assumes w: "\<forall>v\<in>set w. 0 \<le> v" and a: "nonneg_grid a"
  shows "nonneg_grid (filter_axis1 w a)"
  unfolding nonneg_grid_def
proof (intro ballI)
  fix r v assume "r \<in> set (filter_axis1 w a)" and v: "v \<in> set r"
  then obtain row where row: "row \<in> set a" and r: "r = correlate1d w row"
    unfolding filter_axis1_def by auto
  have "\<forall>u\<in>set row. 0 \<le> u" using a row unfolding nonneg_grid_def by blast
  with w have "\<forall>u\<in>set (correlate1d w row). 0 \<le> u" by (rule correlate1d_nonneg)
  then show "0 \<le> v" using v r by blast
qed

lemma filter_axis1_shape: "has_shape nr nc a \<Longrightarrow> has_shape nr nc (filter_axis1 w a)"
  unfolding has_shape_def filter_axis1_def by auto

lemma has_shape_hd: "has_shape nr nc a \<Longrightarrow> 0 < nr \<Longrightarrow> length (hd a) = nc"
  unfolding has_shape_def by (cases a) auto

lemma filter_axis0_shape:
  assumes s: "has_shape nr nc a" and nr: "0 < nr"
  shows "has_shape nr nc (filter_axis0 w a)"
proof -
  have "length (hd a) = nc" using s nr by (rule has_shape_hd)
  moreover have "length a = nr" using s by (simp add: has_shape_def)
  ultimately show ?thesis
    unfolding has_shape_def filter_axis0_def Let_def by simp
qed

lemma filter_axis0_nonneg:
  assumes w: "\<forall>v\<in>set w. 0 \<le> v" and a: "nonneg_grid a" and s: "has_shape nr nc a" and nr: "0 < nr"
  shows "nonneg_grid (filter_axis0 w a)"
  unfolding nonneg_grid_def
proof (intro ballI)
  fix r v assume r: "r \<in> set (filter_axis0 w a)" and v: "v \<in> set r"
  from r obtain i where i: "i < length a"
    and r_eq: "r = map (\<lambda>c. c ! i) (map (\<lambda>j. correlate1d w (column j a)) [0..<length (hd a)])"
    unfolding filter_axis0_def Let_def by auto
  from v r_eq obtain j where j: "j < length (hd a)" and v_eq: "v = correlate1d w (column j a) ! i"
    by auto
  have "\<forall>u\<in>set (column j a). 0 \<le> u"
  proof
    fix u assume "u \<in> set (column j a)"
    then obtain row where row: "row \<in> set a" and u: "u = row ! j"
      unfolding column_def by auto
    have "length row = nc" using s row unfolding has_shape_def by simp
    then have "j < length row" using j has_shape_hd[OF s nr] by simp
    then have "u \<in> set row" using u by simp
    then show "0 \<le> u" using a row unfolding nonneg_grid_def by blast
  qed
  then have "\<forall>u\<in>set (correlate1d w (column j a)). 0 \<le> u"
    using w by (intro correlate1d_nonneg) auto
  moreover have "i < length (correlate1d w (column j a))"
    using i by (simp add: column_def)
  ultimately show "0 \<le> v" unfolding v_eq using nth_mem by blast
qed

lemma gaussian_filter_nonneg:
  assumes a: "nonneg_grid a" and s: "has_shape nr nc a" and nr: "0 < nr"
  shows "nonneg_grid (gaussian_filter sigma a)"
proof (cases "sigma > 1 / 10 ^ 15")
  case True
  have w: "\<forall>v\<in>set (gaussian_weights sigma). 0 \<le> v"
    using gaussian_weights_nonneg by blast
  have "nonneg_grid (filter_axis0 (gaussian_weights sigma) a)"
    using w a s nr by (rule filter_axis0_nonneg)
  with w have "nonneg_grid (filter_axis1 (gaussian_weights sigma)
      (filter_axis0 (gaussian_weights sigma) a))"
    by (rule filter_axis1_nonneg)
  then show ?thesis using True by (simp add: gaussian_filter_def)
next
  case False
  then show ?thesis using a by (simp add: gaussian_filter_def)
qed

lemma gaussian_filter_shape:
  assumes s: "has_shape nr nc a" and nr: "0 < nr"
  shows "has_shape nr nc (gaussian_filter sigma a)"
proof (cases "sigma > 1 / 10 ^ 15")
  case True
  have "has_shape nr nc (filter_axis0 (gaussian_weights sigma) a)"
    using s nr by (rule filter_axis0_shape)
  then have "has_shape nr nc (filter_axis1 (gaussian_weights sigma)
      (filter_axis0 (gaussian_weights sigma) a))"
    by (rule filter_axis1_shape)
  then show ?thesis using True by (simp add: gaussian_filter_def)
next
  case False
  then show ?thesis using s by (simp add: gaussian_filter_def)
qed

lemma normalize_shape: "has_shape nr nc a \<Longrightarrow> has_shape nr nc (normalize a)"
  unfolding has_shape_def normalize_def by auto

lemma length_concat_shape:
  "\<forall>r\<in>set a. length r = nc \<Longrightarrow> length (concat a) = length a * nc"
  by (induction a) auto

lemma length_ravel: "has_shape nr nc a \<Longrightarrow> length (ravel a) = nr * nc"
  unfolding has_shape_def ravel_def using length_concat_shape by blast

lemma normalize_weakly_ordered:
  assumes "nonneg_grid bH"
  shows "weakly_ordered (set (ravel (normalize bH)))"
proof (cases "sum_list (concat bH) = 0")
  case True
  have "\<forall>x\<in>set (concat bH). 0 \<le> x" using assms unfolding nonneg_grid_def by auto
  then have z: "\<forall>x\<in>set (concat bH). x = 0"
    using True sum_list_nonneg_eq_0_iff[of "concat bH"] by blast
  have "v = NaN" if "v \<in> set (ravel (normalize bH))" for v
  proof -
    from that obtain r x where "r \<in> set bH" "x \<in> set r" "v = np_divide x (sum_list (concat bH))"
      unfolding ravel_def normalize_def by auto
    moreover then have "x = 0" using z by auto
    ultimately show ?thesis using True by (simp add: np_divide_def)
  qed
  then have "\<forall>v\<in>set (ravel (normalize bH)). v = NaN" by blast
  then show ?thesis by (rule weakly_ordered_NaN)
next
  case False
  then have "\<forall>v\<in>set (ravel (normalize bH)). \<exists>r. v = Fin r"
    unfolding ravel_def normalize_def by (auto simp: np_divide_def)
  then show ?thesis by (rule weakly_ordered_Fin)
qed

lemma histogram2d_Inr:
  assumes "histogram2d xs ys bins = Inr H"
  shows "3 \<le> length bins" and "has_shape (length bins - 1) (length bins - 1) H"
    and "\<not> list_ex (\<lambda>d. d \<le> 0) (diff bins)"
proof -
  show 3: "3 \<le> length bins" and "\<not> list_ex (\<lambda>d. d \<le> 0) (diff bins)"
    using assms unfolding histogram2d_def by (simp_all split: if_splits)
  then have "H = map (\<lambda>i. map (\<lambda>j.
                  length (filter (\<lambda>(x, y). bin_number bins x = i + 1 \<and> bin_number bins y = j + 1)
                            (zip xs ys)))
                [0..<length bins - 1]) [0..<length bins - 1]"
    using assms unfolding histogram2d_def by (simp split: if_splits)
  then show "has_shape (length bins - 1) (length bins - 1) H"
    unfolding has_shape_def by auto
qed


lemma length_take_columns: "take_columns data channels = Inr data_ch \<Longrightarrow> length data_ch = length (rows data)"
  unfolding take_columns_def by (auto split: if_splits)

lemma length_cumsum_from [simp]: "length (cumsum_from acc xs) = length xs"
  by (induction xs arbitrary: acc) auto

lemma nth_cumsum_from:
  "k < length xs \<Longrightarrow> cumsum_from acc xs ! k = acc + sum_list (take (Suc k) xs)"
proof (induction xs arbitrary: acc k)
  case Nil
  then show ?case by simp
next
  case (Cons x xs)
  then show ?case by (cases k) (auto simp: add.assoc)
qed

lemma diff_nonpositive_iff: "list_ex (\<lambda>d. d \<le> 0) (diff bins) \<longleftrightarrow> \<not> sorted_wrt (<) bins"
proof (induction bins rule: induct_list012)
  case 1
  then show ?case by (simp add: diff_def)
next
  case (2 x)
  then show ?case by (simp add: diff_def)
next
  case (3 x y zs)
  have "diff (x # y # zs) = (y - x) # diff (y # zs)" by (simp add: diff_def)
  moreover have "sorted_wrt (<) (x # y # zs) \<longleftrightarrow> x < y \<and> sorted_wrt (<) (y # zs)"
    by (rule sorted_wrt2) (simp add: transp_on_def)
  ultimately show ?case using 3 by auto
qed

lemma ranked_facts:
  assumes "density2d_ranked data channels bins sigma gate_fraction = Inr R"
  shows "r_n R = \<lceil>round_double (gate_fraction * real (length (rows data)))\<rceil>"
    and "3 \<le> length bins"
    and "has_shape (length bins - 1) (length bins - 1) (r_H R)"
    and "length (r_vD R) = (length bins - 1) * (length bins - 1)"
    and "weakly_ordered (set (r_vD R))"
    and "r_vH R = ravel (r_H R)"
    and "r_sidx R = sorted_reverse (\<lambda>idx. r_vD R ! idx) [0..<length (r_vD R)]"
    and "r_svH R = map (\<lambda>i. r_vH R ! i) (r_sidx R)"
    and "r_csvH R = cumsum (r_svH R)"
proof -
  from assms obtain data_ch n H where
    tc: "take_columns data channels = Inr data_ch"
    and n: "points_to_keep gate_fraction (length data_ch) = Inr n"
    and h: "histogram2d (column 0 data_ch) (column 1 data_ch) bins = Inr H"
    and R: "R = rank_cells data_ch n H sigma"
    by (rule density2d_ranked_Inr)
  show "r_n R = \<lceil>round_double (gate_fraction * real (length (rows data)))\<rceil>"
    unfolding R using length_take_columns[OF tc] points_to_keep_Inr(1)[OF n] by simp
  show 3: "3 \<le> length bins" using h by (rule histogram2d_Inr)
  have sh: "has_shape (length bins - 1) (length bins - 1) H" using h by (rule histogram2d_Inr)
  then show "has_shape (length bins - 1) (length bins - 1) (r_H R)"
    unfolding R by (simp add: rank_cells_def Let_def)
  have shr: "has_shape (length bins - 1) (length bins - 1) (map (map real) H)"
    using sh unfolding has_shape_def by auto
  have nn: "nonneg_grid (map (map real) H)" unfolding nonneg_grid_def by auto
  have pos: "0 < length bins - 1" using 3 by simp
  have "has_shape (length bins - 1) (length bins - 1)
          (normalize (gaussian_filter sigma (map (map real) H)))"
    by (intro normalize_shape gaussian_filter_shape shr pos)
  then show "length (r_vD R) = (length bins - 1) * (length bins - 1)"
    unfolding R by (simp add: rank_cells_def Let_def length_ravel)
  have "nonneg_grid (gaussian_filter sigma (map (map real) H))"
    using nn shr pos by (rule gaussian_filter_nonneg)
  then show "weakly_ordered (set (r_vD R))"
    unfolding R by (simp add: rank_cells_def Let_def normalize_weakly_ordered)
  show "r_vH R = ravel (r_H R)"
    and "r_sidx R = sorted_reverse (\<lambda>idx. r_vD R ! idx) [0..<length (r_vD R)]"
    and "r_svH R = map (\<lambda>i. r_vH R ! i) (r_sidx R)"
    and "r_csvH R = cumsum (r_svH R)"
    unfolding R by (simp_all add: rank_cells_def Let_def)
qed

lemma ranking_facts:
  assumes "density2d_ranked data channels bins sigma gate_fraction = Inr R"
  shows "distinct (r_sidx R)"
    and "set (r_sidx R) = {0..<(length bins - 1) * (length bins - 1)}"
    and "sorted_wrt (ranks_before (r_vD R)) (r_sidx R)"
proof -
  note f = ranked_facts[OF assms]
  show "distinct (r_sidx R)" unfolding f(7) by (simp add: distinct_sorted_reverse)
  show "set (r_sidx R) = {0..<(length bins - 1) * (length bins - 1)}"
    unfolding f(7) by (simp add: f(4))
  have "(\<lambda>i. r_vD R ! i) ` set [0..<length (r_vD R)] \<subseteq> set (r_vD R)" by auto
  then have "weakly_ordered ((\<lambda>i. r_vD R ! i) ` set [0..<length (r_vD R)])"
    using f(5) by (rule weakly_ordered_subset)
  then have "sorted_wrt (ranks_before (r_vD R))
      (sorted_reverse (\<lambda>idx. r_vD R ! idx) [0..<length (r_vD R)])"
    by (intro sorted_sorted_reverse) simp
  then show "sorted_wrt (ranks_before (r_vD R)) (r_sidx R)" using f(7) by simp
qed

subsection \<open>The function on small inputs\<close>

text \<open>
  Three events on the grid with edges \<open>-0.5, 0.5, 1.5\<close>, two in cell \<open>(0,0)\<close> and one
  in cell \<open>(1,1)\<close>; with \<open>sigma = 1/16\<close> the filter radius \<open>int (6 * sigma + 0.5)\<close>
  is \<open>0\<close>. Every number is a double.
\<close>

lemmas upts = upt_rec[of 0] upt_rec[of 1] upt_rec[of 2] upt_rec[of 3] upt_rec[of 4]
  upto.simps[of 0 1] upto.simps[of 1 1] upto.simps[of 2 1]

lemma ceiling_neg_half: "\<lceil>- (1 / 2) :: real\<rceil> = 0"
  by (rule ceiling_unique) simp_all

lemma div_3_2: "Suc (Suc (Suc 0)) div Suc (Suc 0) = Suc 0"
  by (simp add: numeral_2_eq_2[symmetric] numeral_3_eq_3[symmetric])

lemma mod_3_2: "Suc (Suc (Suc 0)) mod Suc (Suc 0) = Suc 0"
  by (simp add: numeral_2_eq_2[symmetric] numeral_3_eq_3[symmetric])

lemmas eval_defs = density2d_locals_def select_and_gate_def density2d_ranked_def
  take_columns_def norm_index_def column_def rank_cells_def Let_def normalize_def ravel_def
  np_divide_def sorted_reverse_def cumsum_def histogram2d_def diff_def bin_number_def
  digitize_def gaussian_filter_def gaussian_weights_def filter_axis0_def filter_axis1_def
  correlate1d_def pad0_def nonzero_def unravel_index_def tuple_in_def boolean_index_def
  mgrid_def ceiling_neg_half div_3_2 mod_3_2 points_to_keep_def round_double_exact_3_2
  round_double_exact_3

lemma ex_ranked_one:
  "density2d_ranked \<lparr>ncols = 2, rows = [[0, 0], [0, 0], [1, 1]]\<rparr> [0, 1]
      [- (1 / 2), 1 / 2, 3 / 2] (1 / 16) 1
   = Inr \<lparr>r_data_ch = [[0, 0], [0, 0], [1, 1]], r_n = 3,
          r_H = [[2, 0], [0, 1]], r_bH = [[2, 0], [0, 1]],
          r_D = [[Fin (2 / 3), Fin 0], [Fin 0, Fin (1 / 3)]],
          r_vD = [Fin (2 / 3), Fin 0, Fin 0, Fin (1 / 3)],
          r_vH = [2, 0, 0, 1], r_sidx = [0, 3, 1, 2],
          r_svH = [2, 1, 0, 0], r_csvH = [2, 3, 3, 3]\<rparr>"
  by (simp add: eval_defs upts)

lemma ex_locals_half:
  "density2d_locals \<lparr>ncols = 2, rows = [[0, 0], [0, 0], [1, 1]]\<rparr> [0, 1]
      [- (1 / 2), 1 / 2, 3 / 2] (1 / 16) (1 / 2)
   = Inr \<lparr>g_Nidx = 0, g_accepted = {(0, 0)}, g_mask = [True, True, False],
          g_gated_data = [[0, 0], [0, 0]], g_x = [[0, 0], [1, 1]], g_y = [[0, 1], [0, 1]],
          g_D = [[Fin (2 / 3), Fin 0], [Fin 0, Fin (1 / 3)]], g_level = Fin (2 / 3)\<rparr>"
  by (simp add: eval_defs upts)

lemma ex_locals_one:
  "density2d_locals \<lparr>ncols = 2, rows = [[0, 0], [0, 0], [1, 1]]\<rparr> [0, 1]
      [- (1 / 2), 1 / 2, 3 / 2] (1 / 16) 1
   = Inr \<lparr>g_Nidx = 1, g_accepted = {(0, 0), (1, 1)}, g_mask = [True, True, True],
          g_gated_data = [[0, 0], [0, 0], [1, 1]], g_x = [[0, 0], [1, 1]],
          g_y = [[0, 1], [0, 1]],
          g_D = [[Fin (2 / 3), Fin 0], [Fin 0, Fin (1 / 3)]], g_level = Fin (1 / 3)\<rparr>"
  by (simp add: eval_defs upts)

lemma ex_density2d_half:
  "density2d (\<lambda>x y D level. Some []) \<lparr>ncols = 2, rows = [[0, 0], [0, 0], [1, 1]]\<rparr> [0, 1]
      [- (1 / 2), 1 / 2, 3 / 2] (1 / 16) (1 / 2)
   = Inr ([[0, 0], [0, 0]], [])"
  by (simp add: density2d_def ex_locals_half)

lemma ex_density2d_one:
  "density2d (\<lambda>x y D level. Some []) \<lparr>ncols = 2, rows = [[0, 0], [0, 0], [1, 1]]\<rparr> [0, 1]
      [- (1 / 2), 1 / 2, 3 / 2] (1 / 16) 1
   = Inr ([[0, 0], [0, 0], [1, 1]], [])"
  by (simp add: density2d_def ex_locals_one)

lemma select_and_gate_Nil:
  "nonzero (map (\<lambda>c. r_n R \<le> int c) (r_csvH R)) = [] \<Longrightarrow>
     select_and_gate data bins R = Inl IndexError_Nidx"
  unfolding select_and_gate_def by simp

lemma select_and_gate_Cons:
  assumes "nonzero (map (\<lambda>c. r_n R \<le> int c) (r_csvH R)) = k # rest"
  shows "\<exists>L. select_and_gate data bins R = Inr L \<and> g_Nidx L = k"
  unfolding select_and_gate_def using assms by (simp add: Let_def)

lemma density2d_locals_Inl:
  "density2d_locals data channels bins sigma gate_fraction = Inl e \<Longrightarrow>
     density2d trace data channels bins sigma gate_fraction = Inl e"
  unfolding density2d_def by simp

lemma ex_ranked_outside:
  "density2d_ranked \<lparr>ncols = 2, rows = [[5, 5], [7, 7]]\<rparr> [0, 1]
      [- (1 / 2), 1 / 2, 3 / 2] (1 / 16) (3 / 4)
   = Inr \<lparr>r_data_ch = [[5, 5], [7, 7]], r_n = 2,
          r_H = [[0, 0], [0, 0]], r_bH = [[0, 0], [0, 0]],
          r_D = [[NaN, NaN], [NaN, NaN]], r_vD = [NaN, NaN, NaN, NaN],
          r_vH = [0, 0, 0, 0], r_sidx = [0, 1, 2, 3],
          r_svH = [0, 0, 0, 0], r_csvH = [0, 0, 0, 0]\<rparr>"
  by (simp add: eval_defs upts)

lemma collect_contours_Inl:
  "collect_contours tr num idxs cntr = Inl e \<Longrightarrow> e = ContourError"
  by (induction idxs arbitrary: cntr) (auto split: if_splits)

lemma density2d_after_gate:
  assumes "density2d_locals data channels bins sigma gate_fraction = Inr L"
    and "density2d trace data channels bins sigma gate_fraction = Inl e"
  shows "e = CntrError \<or> e = ContourError"
  using assms unfolding density2d_def
  by (auto split: option.splits sum.splits dest: collect_contours_Inl)

lemma density2d_ranked_succeeds:
  assumes "length channels = 2"
    and "list_all (\<lambda>c. norm_index (ncols data) c \<noteq> None) channels"
    and "1 < length (rows data)"
    and "\<bar>round_double (gate_fraction * real (length (rows data)))\<bar> < 2 ^ 1024"
    and "3 \<le> length bins"
    and "sorted_wrt (<) bins"
  shows "\<exists>R. density2d_ranked data channels bins sigma gate_fraction = Inr R"
proof -
  obtain data_ch where tc: "take_columns data channels = Inr data_ch"
    using assms(2) unfolding take_columns_def by simp
  then have len: "length data_ch = length (rows data)" by (rule length_take_columns)
  obtain n where n: "points_to_keep gate_fraction (length data_ch) = Inr n"
    using assms(4) unfolding points_to_keep_def len by simp
  obtain H where "histogram2d (column 0 data_ch) (column 1 data_ch) bins = Inr H"
    using assms(5,6) diff_nonpositive_iff[of bins] unfolding histogram2d_def by simp
  then show ?thesis
    unfolding density2d_ranked_def using assms(1,3) tc len n by simp
qed
lemmas upts9 = upt_rec[of 5] upt_rec[of 6] upt_rec[of 7] upt_rec[of 8] upt_rec[of 9]
  upto.simps[of 0 2] upto.simps[of 1 2] upto.simps[of 2 2] upto.simps[of 3 2]

lemma round_double_above_1:
  "round_double (18014398509481985 / 18014398509481984) = 1"
  using round_double_eqI[of 0 "18014398509481985 / 18014398509481984"]
  by (simp add: round_half_even_def)

lemma ex_ranked_fifth:
  "density2d_ranked \<lparr>ncols = 2, rows = [[0, 0], [0, 1], [0, 2], [1, 0], [1, 1]]\<rparr> [0, 1]
      [- (1 / 2), 1 / 2, 3 / 2, 5 / 2] (1 / 16) (3602879701896397 / 2 ^ 54)
   = Inr \<lparr>r_data_ch = [[0, 0], [0, 1], [0, 2], [1, 0], [1, 1]], r_n = 1,
          r_H = [[1, 1, 1], [1, 1, 0], [0, 0, 0]],
          r_bH = [[1, 1, 1], [1, 1, 0], [0, 0, 0]],
          r_D = [[Fin (1 / 5), Fin (1 / 5), Fin (1 / 5)],
                 [Fin (1 / 5), Fin (1 / 5), Fin 0], [Fin 0, Fin 0, Fin 0]],
          r_vD = [Fin (1 / 5), Fin (1 / 5), Fin (1 / 5), Fin (1 / 5), Fin (1 / 5),
                  Fin 0, Fin 0, Fin 0, Fin 0],
          r_vH = [1, 1, 1, 1, 1, 0, 0, 0, 0],
          r_sidx = [0, 1, 2, 3, 4, 5, 6, 7, 8],
          r_svH = [1, 1, 1, 1, 1, 0, 0, 0, 0],
          r_csvH = [1, 2, 3, 4, 5, 5, 5, 5, 5]\<rparr>"
  by (simp add: eval_defs upts upts9 round_double_above_1)

lemma ex_locals_fifth:
  "density2d_locals \<lparr>ncols = 2, rows = [[0, 0], [0, 1], [0, 2], [1, 0], [1, 1]]\<rparr> [0, 1]
      [- (1 / 2), 1 / 2, 3 / 2, 5 / 2] (1 / 16) (3602879701896397 / 2 ^ 54)
   = Inr \<lparr>g_Nidx = 0, g_accepted = {(0, 0)},
          g_mask = [True, False, False, False, False],
          g_gated_data = [[0, 0]],
          g_x = [[0, 0, 0], [1, 1, 1], [2, 2, 2]],
          g_y = [[0, 1, 2], [0, 1, 2], [0, 1, 2]],
          g_D = [[Fin (1 / 5), Fin (1 / 5), Fin (1 / 5)],
                 [Fin (1 / 5), Fin (1 / 5), Fin 0], [Fin 0, Fin 0, Fin 0]],
          g_level = Fin (1 / 5)\<rparr>"
  by (simp add: eval_defs upts upts9 round_double_above_1)

lemma inj_divmod: "0 < nb \<Longrightarrow> inj_on (\<lambda>i::nat. (i div nb, i mod nb)) A"
  by (rule inj_onI) (metis div_mult_mod_eq prod.inject)
lemma pad0_zero: "\<forall>v\<in>set xs. v = 0 \<Longrightarrow> pad0 xs k = 0"
  unfolding pad0_def by (cases "0 \<le> k \<and> k < int (length xs)") auto

lemma correlate1d_zero:
  assumes xs: "\<forall>v\<in>set xs. v = 0"
  shows "\<forall>v\<in>set (correlate1d w xs). v = 0"
proof
  fix v assume "v \<in> set (correlate1d w xs)"
  then obtain i where
    v: "v = sum_list (map (\<lambda>j. w ! j * pad0 xs (int i + int j - int (length w div 2))) [0..<length w])"
    unfolding correlate1d_def by auto
  show "v = 0" unfolding v by (simp add: pad0_zero[OF xs])
qed

lemma filter_axis1_zero:
  assumes a: "\<forall>r\<in>set a. \<forall>v\<in>set r. v = 0"
  shows "\<forall>r\<in>set (filter_axis1 w a). \<forall>v\<in>set r. v = 0"
proof (intro ballI)
  fix r v assume "r \<in> set (filter_axis1 w a)" and v: "v \<in> set r"
  then obtain row where row: "row \<in> set a" and r: "r = correlate1d w row"
    unfolding filter_axis1_def by auto
  have "\<forall>u\<in>set row. u = 0" using a row by blast
  then have "\<forall>u\<in>set (correlate1d w row). u = 0" by (rule correlate1d_zero)
  then show "v = 0" using v r by blast
qed

lemma filter_axis0_zero:
  assumes a: "\<forall>r\<in>set a. \<forall>v\<in>set r. v = 0" and s: "has_shape nr nc a" and nr: "0 < nr"
  shows "\<forall>r\<in>set (filter_axis0 w a). \<forall>v\<in>set r. v = 0"
proof (intro ballI)
  fix r v assume r: "r \<in> set (filter_axis0 w a)" and v: "v \<in> set r"
  from r obtain i where i: "i < length a"
    and r_eq: "r = map (\<lambda>c. c ! i) (map (\<lambda>j. correlate1d w (column j a)) [0..<length (hd a)])"
    unfolding filter_axis0_def Let_def by auto
  from v r_eq obtain j where j: "j < length (hd a)" and v_eq: "v = correlate1d w (column j a) ! i"
    by auto
  have "\<forall>u\<in>set (column j a). u = 0"
  proof
    fix u assume "u \<in> set (column j a)"
    then obtain row where row: "row \<in> set a" and u: "u = row ! j"
      unfolding column_def by auto
    have "length row = nc" using s row unfolding has_shape_def by simp
    then have "j < length row" using j has_shape_hd[OF s nr] by simp
    then have "u \<in> set row" using u by simp
    then show "u = 0" using a row by blast
  qed
  then have "\<forall>u\<in>set (correlate1d w (column j a)). u = 0" by (rule correlate1d_zero)
  moreover have "i < length (correlate1d w (column j a))"
    using i by (simp add: column_def)
  ultimately show "v = 0" unfolding v_eq using nth_mem by blast
qed

lemma gaussian_filter_zero:
  assumes a: "\<forall>r\<in>set a. \<forall>v\<in>set r. v = 0" and s: "has_shape nr nc a" and nr: "0 < nr"
  shows "\<forall>r\<in>set (gaussian_filter sigma a). \<forall>v\<in>set r. v = 0"
proof (cases "sigma > 1 / 10 ^ 15")
  case True
  have "\<forall>r\<in>set (filter_axis0 (gaussian_weights sigma) a). \<forall>v\<in>set r. v = 0"
    using a s nr by (rule filter_axis0_zero)
  then have "\<forall>r\<in>set (filter_axis1 (gaussian_weights sigma)
      (filter_axis0 (gaussian_weights sigma) a)). \<forall>v\<in>set r. v = 0"
    by (rule filter_axis1_zero)
  then show ?thesis using True by (simp add: gaussian_filter_def)
next
  case False
  then show ?thesis using a by (simp add: gaussian_filter_def)
qed

lemma normalize_zero:
  assumes z: "\<forall>r\<in>set bH. \<forall>v\<in>set r. v = 0"
  shows "\<forall>r\<in>set (normalize bH). \<forall>v\<in>set r. v = NaN"
proof -
  have z0: "\<forall>x\<in>set (concat bH). x = 0" using z by auto
  have nn: "0 \<le> x" if "x \<in> set (concat bH)" for x
  proof -
    from z0 that have "x = 0" by blast
    then show ?thesis by simp
  qed
  have "sum_list (concat bH) = 0 \<longleftrightarrow> (\<forall>x\<in>set (concat bH). x = 0)"
    using nn by (rule sum_list_nonneg_eq_0_iff)
  then have s: "sum_list (concat bH) = 0" using z0 by blast
  show ?thesis
  proof (intro ballI)
    fix r v assume "r \<in> set (normalize bH)" and "v \<in> set r"
    then obtain row x where "row \<in> set bH" "x \<in> set row"
      "v = np_divide x (sum_list (concat bH))"
      unfolding normalize_def by auto
    moreover then have "x = 0" using z by blast
    ultimately show "v = NaN" using s by (simp add: np_divide_def)
  qed
qed

lemma csvH_nth:
  assumes R: "density2d_ranked data channels bins sigma gate_fraction = Inr R"
    and k: "k < length (r_sidx R)"
  shows "r_csvH R ! k = sum_list (map (\<lambda>i. r_vH R ! i) (take (Suc k) (r_sidx R)))"
proof -
  note f = ranked_facts[OF R]
  have "r_csvH R ! k = sum_list (take (Suc k) (r_svH R))"
    unfolding f(9) cumsum_def using k by (simp add: nth_cumsum_from f(8))
  then show ?thesis unfolding f(8) by (simp add: take_map)
qed

lemma ranked_D:
  assumes "density2d_ranked data channels bins sigma gate_fraction = Inr R"
  shows "r_D R = normalize (gaussian_filter sigma (map (map real) (r_H R)))"
    and "r_vD R = ravel (r_D R)"
  using assms by (auto elim!: density2d_ranked_Inr simp: rank_cells_def Let_def)

lemma ex_locals_outside:
  "density2d_locals \<lparr>ncols = 2, rows = [[5, 5], [7, 7]]\<rparr> [0, 1]
      [- (1 / 2), 1 / 2, 3 / 2] (1 / 16) (3 / 4) = Inl IndexError_Nidx"
  by (simp add: eval_defs upts)




lemma ex_locals_quarter:
  "density2d_locals \<lparr>ncols = 2, rows = [[1 / 4, 1 / 4], [1 / 4, 1 / 4]]\<rparr> [0, 1]
      [- (1 / 2), 1 / 2, 3 / 2] (1 / 16) (3 / 4)
   = Inr \<lparr>g_Nidx = 0, g_accepted = {(0, 0)}, g_mask = [False, False],
          g_gated_data = [], g_x = [[0, 0], [1, 1]], g_y = [[0, 1], [0, 1]],
          g_D = [[Fin 1, Fin 0], [Fin 0, Fin 0]], g_level = Fin 1\<rparr>"
  by (simp add: eval_defs upts)

lemma ex_ranked_quarter:
  "density2d_ranked \<lparr>ncols = 2, rows = [[1 / 4, 1 / 4], [1 / 4, 1 / 4]]\<rparr> [0, 1]
      [- (1 / 2), 1 / 2, 3 / 2] (1 / 16) (3 / 4)
   = Inr \<lparr>r_data_ch = [[1 / 4, 1 / 4], [1 / 4, 1 / 4]], r_n = 2,
          r_H = [[2, 0], [0, 0]], r_bH = [[2, 0], [0, 0]],
          r_D = [[Fin 1, Fin 0], [Fin 0, Fin 0]],
          r_vD = [Fin 1, Fin 0, Fin 0, Fin 0],
          r_vH = [2, 0, 0, 0], r_sidx = [0, 1, 2, 3],
          r_svH = [2, 0, 0, 0], r_csvH = [2, 2, 2, 2]\<rparr>"
  by (simp add: eval_defs upts)
lemma mgrid_nth:
  assumes "i < nat (e - s)" "j < nat (e - s)"
  shows "fst (mgrid s e) ! i ! j = real_of_int (s + int i)"
    and "snd (mgrid s e) ! i ! j = real_of_int (s + int j)"
    and "length (fst (mgrid s e) ! i) = nat (e - s)"
    and "length (snd (mgrid s e) ! i) = nat (e - s)"
  using assms unfolding mgrid_def by simp_all

lemma mgrid_length:
  "length (fst (mgrid s e)) = nat (e - s)" "length (snd (mgrid s e)) = nat (e - s)"
  unfolding mgrid_def by simp_all

section \<open>The claims\<close>

text \<open>
  C9: for every input on which \<^verbatim>\<open>density2d\<close> returns, the gated output is a subsequence
  of the rows of the input: it is not longer than the input, and it consists of the rows
  at some set of positions, each taken once, unchanged and in the order of the input.
\<close>

theorem gated_output_is_subsequence:
  assumes "density2d trace data channels bins sigma gate_fraction = Inr (gated_data, cntr)"
  shows "subseq gated_data (rows data) \<and> length gated_data \<le> length (rows data)
         \<and> (\<exists>N. gated_data = nths (rows data) N)"
proof -
  from assms obtain L where L: "density2d_locals data channels bins sigma gate_fraction = Inr L"
    and g: "gated_data = g_gated_data L" by (rule density2d_Inr)
  from L obtain R where "select_and_gate data bins R = Inr L" by (rule density2d_locals_Inr)
  then have "g_gated_data L = boolean_index (rows data) (g_mask L)"
    by (rule select_and_gate_Inr)
  then have s: "subseq gated_data (rows data)"
    using g by (simp add: boolean_index_subseq)
  then show ?thesis
    by (simp add: subseq_conv_nths [symmetric] subseq_same_length list_emb_length)
qed


theorem gated_output_is_subsequence_witness:
  "subseq [[0, 0], [0, 0]] [[0, 0], [0, 0], [1, 1 :: real]]
   \<and> length [[0, 0], [0, 0 :: real]] \<le> length [[0, 0], [0, 0], [1, 1 :: real]]
   \<and> (\<exists>N. [[0, 0], [0, 0]] = nths [[0, 0], [0, 0], [1, 1 :: real]] N)"
  using gated_output_is_subsequence [OF ex_density2d_half] by simp

text \<open>
  C8: with the cloud, the channels, the bin edges and sigma fixed, and two fractions
  \<open>f1 \<le> f2\<close> at which \<^verbatim>\<open>density2d\<close> returns, the gated output at \<open>f2\<close> has at least as
  many events as the gated output at \<open>f1\<close>. The fractions need not lie in \<open>(0,1]\<close>.
\<close>

theorem gated_count_monotone_in_fraction:
  assumes le: "f1 \<le> f2"
    and d1: "density2d trace data channels bins sigma f1 = Inr (gated1, cntr1)"
    and d2: "density2d trace data channels bins sigma f2 = Inr (gated2, cntr2)"
  shows "length gated1 \<le> length gated2"
proof -
  from d1 obtain L1 where L1: "density2d_locals data channels bins sigma f1 = Inr L1"
    and g1: "gated1 = g_gated_data L1" by (rule density2d_Inr)
  from d2 obtain L2 where L2: "density2d_locals data channels bins sigma f2 = Inr L2"
    and g2: "gated2 = g_gated_data L2" by (rule density2d_Inr)
  from L1 obtain R1 where R1: "density2d_ranked data channels bins sigma f1 = Inr R1"
    and S1: "select_and_gate data bins R1 = Inr L1" by (rule density2d_locals_Inr)
  from L2 obtain R2 where R2: "density2d_ranked data channels bins sigma f2 = Inr R2"
    and S2: "select_and_gate data bins R2 = Inr L2" by (rule density2d_locals_Inr)
  from R1 obtain data_ch n1 H where
    tc: "take_columns data channels = Inr data_ch"
    and p1: "points_to_keep f1 (length data_ch) = Inr n1"
    and h: "histogram2d (column 0 data_ch) (column 1 data_ch) bins = Inr H"
    and r1: "R1 = rank_cells data_ch n1 H sigma"
    by (rule density2d_ranked_Inr)
  from R2 tc h obtain n2 where
    p2: "points_to_keep f2 (length data_ch) = Inr n2"
    and r2: "R2 = rank_cells data_ch n2 H sigma"
    by (auto elim!: density2d_ranked_Inr)
  have "n1 \<le> n2" using le p1 p2 by (rule points_to_keep_mono)
  then have n: "r_n R1 \<le> r_n R2"
    unfolding r1 r2 by simp
  have same: "r_csvH R2 = r_csvH R1" "r_sidx R2 = r_sidx R1" "r_data_ch R2 = r_data_ch R1"
    unfolding r1 r2 by (simp_all add: rank_cells_def Let_def)
  obtain k1 rest1 where k1: "nonzero (map (\<lambda>c. r_n R1 \<le> int c) (r_csvH R1)) = k1 # rest1"
    using select_and_gate_Inr(1)[OF S1] by (cases "nonzero (map (\<lambda>c. r_n R1 \<le> int c) (r_csvH R1))") auto
  obtain k2 rest2 where k2: "nonzero (map (\<lambda>c. r_n R2 \<le> int c) (r_csvH R1)) = k2 # rest2"
    using select_and_gate_Inr(1)[OF S2] same
    by (cases "nonzero (map (\<lambda>c. r_n R2 \<le> int c) (r_csvH R1))") auto
  have "g_Nidx L1 = k1" "g_Nidx L2 = k2"
    using select_and_gate_Inr(2)[OF S1] select_and_gate_Inr(2)[OF S2] k1 k2 same by simp_all
  moreover have "k1 \<le> k2" using n k1 k2 by (rule Nidx_mono)
  ultimately have "g_accepted L1 \<subseteq> g_accepted L2"
    unfolding select_and_gate_Inr(3)[OF S1] select_and_gate_Inr(3)[OF S2] same
    using set_take_subset_set_take[of "k1 + 1" "k2 + 1" "r_sidx R1"] by auto
  then have "\<And>i. i < length (g_mask L1) \<Longrightarrow> g_mask L1 ! i \<Longrightarrow> g_mask L2 ! i"
    unfolding select_and_gate_Inr(4)[OF S1] select_and_gate_Inr(4)[OF S2] same
    by (auto intro: tuple_in_mono)
  moreover have "length (g_mask L1) = length (g_mask L2)"
    unfolding select_and_gate_Inr(4)[OF S1] select_and_gate_Inr(4)[OF S2] same by simp
  ultimately have "length (boolean_index (rows data) (g_mask L1))
      \<le> length (boolean_index (rows data) (g_mask L2))"
    by (intro length_boolean_index_mono) auto
  then show ?thesis
    unfolding g1 g2 select_and_gate_Inr(5)[OF S1] select_and_gate_Inr(5)[OF S2] .
qed



theorem gated_count_monotone_in_fraction_witness:
  "(1 / 2 :: real) \<le> 1
   \<and> length [[0, 0], [0, 0 :: real]] \<le> length [[0, 0], [0, 0], [1, 1 :: real]]"
  using gated_count_monotone_in_fraction [OF _ ex_density2d_half ex_density2d_one] by simp

text \<open>
  C7: the cell ranking \<^verbatim>\<open>sidx\<close> is a permutation of all linear indices of the grid, in
  descending order of smoothed density, and cells that the comparison does not separate
  keep their index order: for \<open>i\<close> before \<open>j\<close> in the ranking, the density of \<open>i\<close> is
  not below the density of \<open>j\<close>, and \<open>i < j\<close> unless the density of \<open>j\<close> is below that
  of \<open>i\<close>. It holds on every input that reaches the ranking, also when the field is all
  \<open>nan\<close>.
\<close>

theorem cell_ranking_stable_descending:
  assumes "density2d_ranked data channels bins sigma gate_fraction = Inr R"
  shows "distinct (r_sidx R)
       \<and> set (r_sidx R) = {0..<(length bins - 1) * (length bins - 1)}
       \<and> length (r_vD R) = (length bins - 1) * (length bins - 1)
       \<and> sorted_wrt (ranks_before (r_vD R)) (r_sidx R)"
  using ranking_facts[OF assms] ranked_facts(4)[OF assms] by simp

theorem cell_ranking_stable_descending_witness:
  "distinct [0, 3, 1, 2 :: nat]
   \<and> set [0, 3, 1, 2 :: nat]
       = {0..<(length [- (1 / 2), 1 / 2, 3 / 2 :: real] - 1)
              * (length [- (1 / 2), 1 / 2, 3 / 2 :: real] - 1)}
   \<and> sorted_wrt (ranks_before [Fin (2 / 3), Fin 0, Fin 0, Fin (1 / 3)]) [0, 3, 1, 2]"
  using cell_ranking_stable_descending [OF ex_ranked_one] by simp

text \<open>
  C6, as stated, fails. The target count of line 109 is the ceiling of the rounded
  product, not of \<open>gate_fraction * N\<close>. Five events in five cells and the double nearest
  to \<open>0.2\<close>, which is \<open>3602879701896397 / 2\<^sup>5\<^sup>4\<close>: the exact product is \<open>1 + 2\<^sup>-\<^sup>5\<^sup>4\<close> with
  ceiling \<open>2\<close>, the rounded product is \<open>1\<close>, so \<^verbatim>\<open>n\<close> is \<open>1\<close>. The running sum is \<open>1\<close> at
  index \<open>0\<close> and reaches \<open>2\<close> only at index \<open>1\<close>; the call accepts the one cell of
  \<^verbatim>\<open>sidx[0..0]\<close> and keeps one event.
\<close>

theorem target_count_is_not_exact_ceiling:
  "density2d_ranked \<lparr>ncols = 2, rows = [[0, 0], [0, 1], [0, 2], [1, 0], [1, 1]]\<rparr> [0, 1]
      [- (1 / 2), 1 / 2, 3 / 2, 5 / 2] (1 / 16) (3602879701896397 / 2 ^ 54)
   = Inr \<lparr>r_data_ch = [[0, 0], [0, 1], [0, 2], [1, 0], [1, 1]], r_n = 1,
          r_H = [[1, 1, 1], [1, 1, 0], [0, 0, 0]],
          r_bH = [[1, 1, 1], [1, 1, 0], [0, 0, 0]],
          r_D = [[Fin (1 / 5), Fin (1 / 5), Fin (1 / 5)],
                 [Fin (1 / 5), Fin (1 / 5), Fin 0], [Fin 0, Fin 0, Fin 0]],
          r_vD = [Fin (1 / 5), Fin (1 / 5), Fin (1 / 5), Fin (1 / 5), Fin (1 / 5),
                  Fin 0, Fin 0, Fin 0, Fin 0],
          r_vH = [1, 1, 1, 1, 1, 0, 0, 0, 0],
          r_sidx = [0, 1, 2, 3, 4, 5, 6, 7, 8],
          r_svH = [1, 1, 1, 1, 1, 0, 0, 0, 0],
          r_csvH = [1, 2, 3, 4, 5, 5, 5, 5, 5]\<rparr>
   \<and> density2d_locals \<lparr>ncols = 2, rows = [[0, 0], [0, 1], [0, 2], [1, 0], [1, 1]]\<rparr> [0, 1]
      [- (1 / 2), 1 / 2, 3 / 2, 5 / 2] (1 / 16) (3602879701896397 / 2 ^ 54)
   = Inr \<lparr>g_Nidx = 0, g_accepted = {(0, 0)},
          g_mask = [True, False, False, False, False],
          g_gated_data = [[0, 0]],
          g_x = [[0, 0, 0], [1, 1, 1], [2, 2, 2]],
          g_y = [[0, 1, 2], [0, 1, 2], [0, 1, 2]],
          g_D = [[Fin (1 / 5), Fin (1 / 5), Fin (1 / 5)],
                 [Fin (1 / 5), Fin (1 / 5), Fin 0], [Fin 0, Fin 0, Fin 0]],
          g_level = Fin (1 / 5)\<rparr>
   \<and> \<lceil>3602879701896397 / 2 ^ 54 * real (length [[0, 0], [0, 1], [0, 2], [1, 0], [1, 1 :: real]])\<rceil> = 2
   \<and> int ([1, 2, 3, 4, 5, 5, 5, 5, 5] ! 0) < 2"
proof -
  have "\<lceil>18014398509481985 / 18014398509481984 :: real\<rceil> = 2"
    by (rule ceiling_unique) simp_all
  then show ?thesis using ex_ranked_fifth ex_locals_fifth by simp
qed

text \<open>
  C6, amended: with \<open>n\<close> the ceiling of the double-precision product of
  \<^verbatim>\<open>gate_fraction\<close> and N, and \<^verbatim>\<open>csvH\<close> the running sum of the raw counts in ranking
  order, the selector accepts exactly the cells whose coordinates are
  \<open>(i div nb, i mod nb)\<close> for \<open>i\<close> in \<^verbatim>\<open>sidx[0..k]\<close>, \<open>k + 1\<close> cells in all, where \<open>k\<close> is the
  smallest index with \<open>csvH[k] \<ge> n\<close>. If no index has \<open>csvH[k] \<ge> n\<close>, the subscript of
  line 135 raises \<^verbatim>\<open>IndexError\<close> and the call returns nothing, whatever the tracer.
\<close>

theorem selector_accepts_minimal_prefix:
  assumes R: "density2d_ranked data channels bins sigma gate_fraction = Inr R"
  shows "r_n R = \<lceil>round_double (gate_fraction * real (length (rows data)))\<rceil>
       \<and> length (r_csvH R) = length (r_sidx R)
       \<and> (\<forall>k<length (r_sidx R).
             r_csvH R ! k = sum_list (map (\<lambda>i. concat (r_H R) ! i) (take (Suc k) (r_sidx R))))
       \<and> (if \<exists>k<length (r_csvH R). r_n R \<le> int (r_csvH R ! k)
           then \<exists>L. density2d_locals data channels bins sigma gate_fraction = Inr L
                  \<and> g_Nidx L < length (r_csvH R)
                  \<and> r_n R \<le> int (r_csvH R ! g_Nidx L)
                  \<and> (\<forall>j<g_Nidx L. int (r_csvH R ! j) < r_n R)
                  \<and> g_accepted L
                      = (\<lambda>i. (i div (length bins - 1), i mod (length bins - 1)))
                          ` set (take (g_Nidx L + 1) (r_sidx R))
                  \<and> card (g_accepted L) = g_Nidx L + 1
           else density2d_locals data channels bins sigma gate_fraction = Inl IndexError_Nidx
                \<and> (\<forall>trace. density2d trace data channels bins sigma gate_fraction
                       = Inl IndexError_Nidx))"
proof -
  note f = ranked_facts[OF R]
  note g = ranking_facts[OF R]
  let ?b = "map (\<lambda>c. r_n R \<le> int c) (r_csvH R)"
  let ?nb = "length bins - 1"
  have len: "length (r_csvH R) = length (r_sidx R)"
    unfolding f(9) f(8) cumsum_def by simp
  have cs: "r_csvH R ! k = sum_list (map (\<lambda>i. concat (r_H R) ! i) (take (Suc k) (r_sidx R)))"
    if "k < length (r_sidx R)" for k
  proof -
    have "r_csvH R ! k = sum_list (take (Suc k) (r_svH R))"
      unfolding f(9) cumsum_def using that by (simp add: nth_cumsum_from f(8))
    then show ?thesis unfolding f(8) f(6) ravel_def by (simp add: take_map)
  qed
  have loc: "density2d_locals data channels bins sigma gate_fraction = select_and_gate data bins R"
    unfolding density2d_locals_def using R by simp
  have sel: ?thesis if ex: "\<exists>k<length (r_csvH R). r_n R \<le> int (r_csvH R ! k)"
  proof -
    from ex have "nonzero ?b \<noteq> []" by (auto simp: nonzero_Nil)
    then obtain k rest where k: "nonzero ?b = k # rest" by (cases "nonzero ?b") auto
    then obtain L where L: "select_and_gate data bins R = Inr L" and N: "g_Nidx L = k"
      using select_and_gate_Cons by blast
    have k1: "k < length (r_csvH R)" and k2: "r_n R \<le> int (r_csvH R ! k)"
      using nonzero_Cons(1,2)[OF k] by simp_all
    have k3: "int (r_csvH R ! j) < r_n R" if "j < k" for j
      using nonzero_Cons(3)[OF k that] that k1 by simp
    have acc: "g_accepted L = (\<lambda>i. (i div ?nb, i mod ?nb)) ` set (take (g_Nidx L + 1) (r_sidx R))"
      using select_and_gate_Inr(3)[OF L] by (simp add: unravel_index_def image_def)
    have "card (g_accepted L) = card (set (take (g_Nidx L + 1) (r_sidx R)))"
      unfolding acc using f(2) by (intro card_image inj_divmod) simp
    also have "\<dots> = length (take (g_Nidx L + 1) (r_sidx R))"
      using g(1) by (intro distinct_card distinct_take)
    also have "\<dots> = g_Nidx L + 1" using N k1 len by simp
    finally have crd: "card (g_accepted L) = g_Nidx L + 1" .
    have "\<exists>L. density2d_locals data channels bins sigma gate_fraction = Inr L
                  \<and> g_Nidx L < length (r_csvH R)
                  \<and> r_n R \<le> int (r_csvH R ! g_Nidx L)
                  \<and> (\<forall>j<g_Nidx L. int (r_csvH R ! j) < r_n R)
                  \<and> g_accepted L
                      = (\<lambda>i. (i div ?nb, i mod ?nb)) ` set (take (g_Nidx L + 1) (r_sidx R))
                  \<and> card (g_accepted L) = g_Nidx L + 1"
      using loc L N k1 k2 k3 acc crd by auto
    then show ?thesis using ex len cs f(1) by simp
  qed
  have nosel: ?thesis if nex: "\<not> (\<exists>k<length (r_csvH R). r_n R \<le> int (r_csvH R ! k))"
  proof -
    from nex have "nonzero ?b = []" by (auto simp: nonzero_Nil)
    then have "select_and_gate data bins R = Inl IndexError_Nidx"
      by (rule select_and_gate_Nil)
    then have "density2d_locals data channels bins sigma gate_fraction = Inl IndexError_Nidx"
      using loc by simp
    then show ?thesis using nex len cs f(1) density2d_locals_Inl by simp
  qed
  from sel nosel show ?thesis by blast
qed

theorem selector_accepts_minimal_prefix_witness:
  "(\<exists>L. density2d_locals \<lparr>ncols = 2, rows = [[0, 0], [0, 0], [1, 1]]\<rparr> [0, 1]
           [- (1 / 2), 1 / 2, 3 / 2] (1 / 16) 1 = Inr L
        \<and> g_Nidx L < length [2, 3, 3, 3 :: nat]
        \<and> 3 \<le> int ([2, 3, 3, 3] ! g_Nidx L)
        \<and> (\<forall>j<g_Nidx L. int ([2, 3, 3, 3] ! j) < 3)
        \<and> g_accepted L
            = (\<lambda>i. (i div (length [- (1 / 2), 1 / 2, 3 / 2 :: real] - 1),
                      i mod (length [- (1 / 2), 1 / 2, 3 / 2 :: real] - 1)))
                ` set (take (g_Nidx L + 1) [0, 3, 1, 2])
        \<and> card (g_accepted L) = g_Nidx L + 1)
   \<and> density2d_locals \<lparr>ncols = 2, rows = [[5, 5], [7, 7]]\<rparr> [0, 1]
           [- (1 / 2), 1 / 2, 3 / 2] (1 / 16) (3 / 4) = Inl IndexError_Nidx"
proof -
  define R1 where "R1 = \<lparr>r_data_ch = [[0, 0], [0, 0], [1, 1 :: real]], r_n = 3,
          r_H = [[2, 0], [0, 1]], r_bH = [[2, 0], [0, 1]],
          r_D = [[Fin (2 / 3), Fin 0], [Fin 0, Fin (1 / 3)]],
          r_vD = [Fin (2 / 3), Fin 0, Fin 0, Fin (1 / 3)],
          r_vH = [2, 0, 0, 1], r_sidx = [0, 3, 1, 2],
          r_svH = [2, 1, 0, 0], r_csvH = [2, 3, 3, 3]\<rparr>"
  define R2 where "R2 = \<lparr>r_data_ch = [[5, 5], [7, 7 :: real]], r_n = 2,
          r_H = [[0, 0], [0, 0]], r_bH = [[0, 0], [0, 0]],
          r_D = [[NaN, NaN], [NaN, NaN]], r_vD = [NaN, NaN, NaN, NaN],
          r_vH = [0, 0, 0, 0], r_sidx = [0, 1, 2, 3],
          r_svH = [0, 0, 0, 0], r_csvH = [0, 0, 0, 0]\<rparr>"
  have r1: "density2d_ranked \<lparr>ncols = 2, rows = [[0, 0], [0, 0], [1, 1]]\<rparr> [0, 1]
      [- (1 / 2), 1 / 2, 3 / 2] (1 / 16) 1 = Inr R1"
    unfolding R1_def by (rule ex_ranked_one)
  have r2: "density2d_ranked \<lparr>ncols = 2, rows = [[5, 5], [7, 7]]\<rparr> [0, 1]
      [- (1 / 2), 1 / 2, 3 / 2] (1 / 16) (3 / 4) = Inr R2"
    unfolding R2_def by (rule ex_ranked_outside)
  have c: "\<exists>k<length (r_csvH R1). r_n R1 \<le> int (r_csvH R1 ! k)"
    by (rule exI[of _ 1]) (simp add: R1_def)
  have d: "\<not> (\<exists>k<length (r_csvH R2). r_n R2 \<le> int (r_csvH R2 ! k))"
    by (auto simp: R2_def nth_Cons')
  note t1 = selector_accepts_minimal_prefix [OF r1, THEN conjunct2, THEN conjunct2, THEN conjunct2]
  note t2 = selector_accepts_minimal_prefix [OF r2, THEN conjunct2, THEN conjunct2, THEN conjunct2]
  from t1 c have "\<exists>L. density2d_locals \<lparr>ncols = 2, rows = [[0, 0], [0, 0], [1, 1]]\<rparr> [0, 1]
           [- (1 / 2), 1 / 2, 3 / 2] (1 / 16) 1 = Inr L
        \<and> g_Nidx L < length (r_csvH R1)
        \<and> r_n R1 \<le> int (r_csvH R1 ! g_Nidx L)
        \<and> (\<forall>j<g_Nidx L. int (r_csvH R1 ! j) < r_n R1)
        \<and> g_accepted L
            = (\<lambda>i. (i div (length [- (1 / 2), 1 / 2, 3 / 2 :: real] - 1),
                      i mod (length [- (1 / 2), 1 / 2, 3 / 2 :: real] - 1)))
                ` set (take (g_Nidx L + 1) (r_sidx R1))
        \<and> card (g_accepted L) = g_Nidx L + 1"
    by (simp only: if_True)
  then have a: "\<exists>L. density2d_locals \<lparr>ncols = 2, rows = [[0, 0], [0, 0], [1, 1]]\<rparr> [0, 1]
           [- (1 / 2), 1 / 2, 3 / 2] (1 / 16) 1 = Inr L
        \<and> g_Nidx L < length [2, 3, 3, 3 :: nat]
        \<and> 3 \<le> int ([2, 3, 3, 3] ! g_Nidx L)
        \<and> (\<forall>j<g_Nidx L. int ([2, 3, 3, 3] ! j) < 3)
        \<and> g_accepted L
            = (\<lambda>i. (i div (length [- (1 / 2), 1 / 2, 3 / 2 :: real] - 1),
                      i mod (length [- (1 / 2), 1 / 2, 3 / 2 :: real] - 1)))
                ` set (take (g_Nidx L + 1) [0, 3, 1, 2])
        \<and> card (g_accepted L) = g_Nidx L + 1"
    unfolding R1_def by (simp only: ranked.select_convs)
  from t2 d have b: "density2d_locals \<lparr>ncols = 2, rows = [[5, 5], [7, 7]]\<rparr> [0, 1]
           [- (1 / 2), 1 / 2, 3 / 2] (1 / 16) (3 / 4) = Inl IndexError_Nidx"
    by (simp only: if_False)
  from a b show ?thesis by (rule conjI)
qed

text \<open>
  C10: with \<open>gate_fraction = 0\<close>, two channels that exist, two events or more and
  increasing bin edges, nothing before the contour library raises: the target count is
  \<open>0\<close>, \<^verbatim>\<open>Nidx\<close> is \<open>0\<close>, the accepted set is the single cell that heads the ranking, and
  the call is what the contour library makes of the level \<^verbatim>\<open>vD[sidx[0]]\<close>, the density
  of that cell. No other cell has a higher density, and every cell with a smaller index
  has a lower one.
\<close>

theorem zero_fraction_accepts_densest_cell:
  assumes "length channels = 2"
    and "\<forall>c\<in>set channels. - int (ncols data) \<le> c \<and> c < int (ncols data)"
    and "1 < length (rows data)"
    and "3 \<le> length bins"
    and "sorted_wrt (<) bins"
  shows "\<exists>R L. density2d_ranked data channels bins sigma 0 = Inr R
           \<and> r_n R = 0
           \<and> density2d_locals data channels bins sigma 0 = Inr L
           \<and> g_Nidx L = 0
           \<and> g_accepted L
               = {(hd (r_sidx R) div (length bins - 1), hd (r_sidx R) mod (length bins - 1))}
           \<and> g_level L = r_vD R ! hd (r_sidx R)
           \<and> hd (r_sidx R) < length (r_vD R)
           \<and> (\<forall>j<length (r_vD R). j \<noteq> hd (r_sidx R)
                  \<longrightarrow> ranks_before (r_vD R) (hd (r_sidx R)) j)
           \<and> (\<forall>trace. density2d trace data channels bins sigma 0
                 = (case trace (g_x L) (g_y L) (r_D R) (r_vD R ! hd (r_sidx R)) of
                      None \<Rightarrow> Inl CntrError
                    | Some tr \<Rightarrow>
                        (case collect_contours tr (length tr div 2) [0..<length tr div 2] [] of
                           Inl e \<Rightarrow> Inl e
                         | Inr cntr \<Rightarrow> Inr (g_gated_data L, cntr))))
           \<and> (\<forall>trace e. density2d trace data channels bins sigma 0 = Inl e
                  \<longrightarrow> e = CntrError \<or> e = ContourError)"
proof -
  have ch: "list_all (\<lambda>c. norm_index (ncols data) c \<noteq> None) channels"
    using assms(2) by (auto simp: list_all_iff norm_index_def)
  have "\<bar>round_double (0 * real (length (rows data)))\<bar> < 2 ^ 1024" by simp
  then obtain R where R: "density2d_ranked data channels bins sigma 0 = Inr R"
    using density2d_ranked_succeeds[OF assms(1) ch assms(3) _ assms(4,5)] by blast
  note f = ranked_facts[OF R]
  note g = ranking_facts[OF R]
  have n: "r_n R = 0" using f(1) by simp
  have pos: "0 < length (r_vD R)" using f(4) assms(4) by simp
  have len: "length (r_csvH R) = length (r_vD R)"
    unfolding f(9) f(8) cumsum_def by (simp add: f(7))
  let ?b = "map (\<lambda>c. r_n R \<le> int c) (r_csvH R)"
  have b0: "?b ! 0" using pos len n by simp
  then have "nonzero ?b \<noteq> []" using pos len by (auto simp: nonzero_Nil)
  then obtain k rest where k: "nonzero ?b = k # rest" by (cases "nonzero ?b") auto
  have k0: "k = 0" using nonzero_Cons(3)[OF k, of 0] b0 by auto
  obtain L where L: "select_and_gate data bins R = Inr L" and N: "g_Nidx L = 0"
    using select_and_gate_Cons[OF k] k0 by blast
  have loc: "density2d_locals data channels bins sigma 0 = Inr L"
    unfolding density2d_locals_def using R L by simp
  have ne: "r_sidx R \<noteq> []" using g(2) pos f(4) by auto
  then have t1: "take (Suc 0) (r_sidx R) = [hd (r_sidx R)]" by (cases "r_sidx R") auto
  have acc: "g_accepted L
      = {(hd (r_sidx R) div (length bins - 1), hd (r_sidx R) mod (length bins - 1))}"
    using select_and_gate_Inr(3)[OF L] N t1 by (simp add: unravel_index_def)
  have lvl: "g_level L = r_vD R ! hd (r_sidx R)"
    using select_and_gate_Inr(9)[OF L] N ne by (simp add: hd_conv_nth)
  have hd_in: "hd (r_sidx R) < length (r_vD R)"
    using g(2) ne f(4) hd_in_set[OF ne] by auto
  have best: "ranks_before (r_vD R) (hd (r_sidx R)) j"
    if "j < length (r_vD R)" "j \<noteq> hd (r_sidx R)" for j
  proof -
    have "j \<in> set (r_sidx R)" using that(1) g(2) f(4) by simp
    then have "j \<in> set (tl (r_sidx R))" using that(2) ne by (cases "r_sidx R") auto
    moreover have "sorted_wrt (ranks_before (r_vD R)) (hd (r_sidx R) # tl (r_sidx R))"
      using g(3) ne by simp
    ultimately show ?thesis by simp
  qed
  have call: "density2d trace data channels bins sigma 0
                 = (case trace (g_x L) (g_y L) (r_D R) (r_vD R ! hd (r_sidx R)) of
                      None \<Rightarrow> Inl CntrError
                    | Some tr \<Rightarrow>
                        (case collect_contours tr (length tr div 2) [0..<length tr div 2] [] of
                           Inl e \<Rightarrow> Inl e
                         | Inr cntr \<Rightarrow> Inr (g_gated_data L, cntr)))" for trace
    unfolding density2d_def using loc lvl select_and_gate_Inr(8)[OF L] by simp
  have err: "e = CntrError \<or> e = ContourError"
    if "density2d trace data channels bins sigma 0 = Inl e" for trace e
    using loc that by (rule density2d_after_gate)
  show ?thesis using R n loc N acc lvl hd_in best call err by blast
qed

theorem zero_fraction_accepts_densest_cell_witness:
  "\<exists>R L. density2d_ranked \<lparr>ncols = 2, rows = [[0, 0], [0, 0], [1, 1]]\<rparr> [0, 1]
             [- (1 / 2), 1 / 2, 3 / 2] (1 / 16) 0 = Inr R
           \<and> r_n R = 0
           \<and> density2d_locals \<lparr>ncols = 2, rows = [[0, 0], [0, 0], [1, 1]]\<rparr> [0, 1]
               [- (1 / 2), 1 / 2, 3 / 2] (1 / 16) 0 = Inr L
           \<and> g_Nidx L = 0
           \<and> g_accepted L
               = {(hd (r_sidx R) div (length [- (1 / 2), 1 / 2, 3 / 2 :: real] - 1),
                   hd (r_sidx R) mod (length [- (1 / 2), 1 / 2, 3 / 2 :: real] - 1))}
           \<and> g_level L = r_vD R ! hd (r_sidx R)
           \<and> hd (r_sidx R) < length (r_vD R)
           \<and> (\<forall>j<length (r_vD R). j \<noteq> hd (r_sidx R)
                  \<longrightarrow> ranks_before (r_vD R) (hd (r_sidx R)) j)
           \<and> (\<forall>trace. density2d trace \<lparr>ncols = 2, rows = [[0, 0], [0, 0], [1, 1]]\<rparr> [0, 1]
                   [- (1 / 2), 1 / 2, 3 / 2] (1 / 16) 0
                 = (case trace (g_x L) (g_y L) (r_D R) (r_vD R ! hd (r_sidx R)) of
                      None \<Rightarrow> Inl CntrError
                    | Some tr \<Rightarrow>
                        (case collect_contours tr (length tr div 2) [0..<length tr div 2] [] of
                           Inl e \<Rightarrow> Inl e
                         | Inr cntr \<Rightarrow> Inr (g_gated_data L, cntr))))
           \<and> (\<forall>trace e. density2d trace \<lparr>ncols = 2, rows = [[0, 0], [0, 0], [1, 1]]\<rparr> [0, 1]
                  [- (1 / 2), 1 / 2, 3 / 2] (1 / 16) 0 = Inl e
                  \<longrightarrow> e = CntrError \<or> e = ContourError)"
  by (rule zero_fraction_accepts_densest_cell) simp_all

text \<open>
  C3, as stated, fails. Two events outside the bin range: the histogram is all zero,
  line 124 divides by zero without raising and the density field is all \<open>nan\<close>. The
  call then fails at the subscript of line 135 with \<^verbatim>\<open>IndexError\<close>, the failure that the
  specification names \<^verbatim>\<open>InternalInvariantViolation\<close>; the source has no check of the
  histogram and no exception of its own for an empty distribution.
\<close>

theorem zero_histogram_raises_index_error:
  "density2d_ranked \<lparr>ncols = 2, rows = [[5, 5], [7, 7]]\<rparr> [0, 1]
      [- (1 / 2), 1 / 2, 3 / 2] (1 / 16) (3 / 4)
   = Inr \<lparr>r_data_ch = [[5, 5], [7, 7]], r_n = 2,
          r_H = [[0, 0], [0, 0]], r_bH = [[0, 0], [0, 0]],
          r_D = [[NaN, NaN], [NaN, NaN]], r_vD = [NaN, NaN, NaN, NaN],
          r_vH = [0, 0, 0, 0], r_sidx = [0, 1, 2, 3],
          r_svH = [0, 0, 0, 0], r_csvH = [0, 0, 0, 0]\<rparr>
   \<and> density2d_locals \<lparr>ncols = 2, rows = [[5, 5], [7, 7]]\<rparr> [0, 1]
      [- (1 / 2), 1 / 2, 3 / 2] (1 / 16) (3 / 4) = Inl IndexError_Nidx
   \<and> density2d (\<lambda>x y D level. Some []) \<lparr>ncols = 2, rows = [[5, 5], [7, 7]]\<rparr> [0, 1]
      [- (1 / 2), 1 / 2, 3 / 2] (1 / 16) (3 / 4) = Inl IndexError_Nidx"
  using ex_ranked_outside ex_locals_outside by (simp add: density2d_def)

text \<open>
  C3, amended: if the histogram is all zero, the normalized density field is computed,
  without an exception, as a grid of \<open>nan\<close>. When the target count \<^verbatim>\<open>n\<close> is at least \<open>1\<close>,
  as it is for every fraction in \<open>(0,1]\<close>, the call then raises the \<^verbatim>\<open>IndexError\<close> of line
  135, whatever the tracer. When \<^verbatim>\<open>n\<close> is \<open>0\<close> or less, nothing before the contour library
  raises, and the level handed to it is \<open>nan\<close>.
\<close>

theorem zero_histogram_gives_nan_field:
  assumes R: "density2d_ranked data channels bins sigma gate_fraction = Inr R"
    and z: "\<forall>r\<in>set (r_H R). \<forall>c\<in>set r. c = 0"
  shows "length (r_D R) = length bins - 1
       \<and> (\<forall>r\<in>set (r_D R). length r = length bins - 1 \<and> (\<forall>v\<in>set r. v = NaN))
       \<and> (if 1 \<le> r_n R
           then density2d_locals data channels bins sigma gate_fraction = Inl IndexError_Nidx
                \<and> (\<forall>trace. density2d trace data channels bins sigma gate_fraction
                       = Inl IndexError_Nidx)
           else \<exists>L. density2d_locals data channels bins sigma gate_fraction = Inr L
                  \<and> g_Nidx L = 0 \<and> g_D L = r_D R \<and> g_level L = NaN)"
proof -
  note f = ranked_facts[OF R]
  note g = ranking_facts[OF R]
  let ?nb = "length bins - 1"
  have pos: "0 < ?nb" using f(2) by simp
  have shr: "has_shape ?nb ?nb (map (map real) (r_H R))"
    using f(3) unfolding has_shape_def by auto
  have zr: "\<forall>r\<in>set (map (map real) (r_H R)). \<forall>v\<in>set r. v = 0"
    using z by auto
  have "\<forall>r\<in>set (gaussian_filter sigma (map (map real) (r_H R))). \<forall>v\<in>set r. v = 0"
    using zr shr pos by (rule gaussian_filter_zero)
  then have nan: "\<forall>r\<in>set (r_D R). \<forall>v\<in>set r. v = NaN"
    unfolding ranked_D(1)[OF R] by (rule normalize_zero)
  have shD: "has_shape ?nb ?nb (r_D R)"
    unfolding ranked_D(1)[OF R]
    by (intro normalize_shape gaussian_filter_shape shr pos)
  have vnan: "\<forall>v\<in>set (r_vD R). v = NaN"
    unfolding ranked_D(2)[OF R] ravel_def using nan by auto
  have lenH: "length (r_vH R) = ?nb * ?nb" unfolding f(6) using f(3) by (rule length_ravel)
  have vH0: "r_vH R ! i = 0" if "i < ?nb * ?nb" for i
  proof -
    have "r_vH R ! i \<in> set (r_vH R)" using that lenH by simp
    then show ?thesis unfolding f(6) ravel_def using z by auto
  qed
  have len: "length (r_csvH R) = length (r_sidx R)"
    unfolding f(9) f(8) cumsum_def by simp
  have lens: "length (r_sidx R) = ?nb * ?nb" unfolding f(7) by (simp add: f(4))
  have cs0: "r_csvH R ! k = 0" if "k < length (r_sidx R)" for k
  proof -
    have "\<forall>i\<in>set (take (Suc k) (r_sidx R)). r_vH R ! i = 0"
      using g(2) vH0 by (auto dest!: in_set_takeD)
    then show ?thesis unfolding csvH_nth[OF R that] by (simp add: sum_list_eq_0_iff)
  qed
  let ?b = "map (\<lambda>c. r_n R \<le> int c) (r_csvH R)"
  have loc: "density2d_locals data channels bins sigma gate_fraction = select_and_gate data bins R"
    unfolding density2d_locals_def using R by simp
  have hi: "density2d_locals data channels bins sigma gate_fraction = Inl IndexError_Nidx
                \<and> (\<forall>trace. density2d trace data channels bins sigma gate_fraction
                       = Inl IndexError_Nidx)" if "1 \<le> r_n R"
  proof -
    have "nonzero ?b = []" using that cs0 len by (simp add: nonzero_Nil)
    then have "density2d_locals data channels bins sigma gate_fraction = Inl IndexError_Nidx"
      unfolding loc by (rule select_and_gate_Nil)
    then show ?thesis using density2d_locals_Inl by blast
  qed
  have lo: "\<exists>L. density2d_locals data channels bins sigma gate_fraction = Inr L
                  \<and> g_Nidx L = 0 \<and> g_D L = r_D R \<and> g_level L = NaN" if "\<not> 1 \<le> r_n R"
  proof -
    have p: "0 < length (r_sidx R)" using lens pos by simp
    have b0: "?b ! 0" using that cs0[OF p] p len by simp
    then have "nonzero ?b \<noteq> []" using p len by (auto simp: nonzero_Nil)
    then obtain k rest where k: "nonzero ?b = k # rest" by (cases "nonzero ?b") auto
    have k0: "k = 0" using nonzero_Cons(3)[OF k, of 0] b0 by auto
    obtain L where L: "select_and_gate data bins R = Inr L" and N: "g_Nidx L = 0"
      using select_and_gate_Cons[OF k] k0 by blast
    have "r_sidx R ! 0 \<in> set (r_sidx R)" using p by simp
    then have "r_sidx R ! 0 < length (r_vD R)" using g(2) f(4) by simp
    then have "r_vD R ! (r_sidx R ! 0) = NaN" using vnan nth_mem by blast
    then have "g_level L = NaN" using select_and_gate_Inr(9)[OF L] N by simp
    then show ?thesis using loc L N select_and_gate_Inr(8)[OF L] by simp
  qed
  have "length (r_D R) = ?nb" "\<forall>r\<in>set (r_D R). length r = ?nb"
    using shD unfolding has_shape_def by simp_all
  then show ?thesis using nan hi lo by simp
qed

theorem zero_histogram_gives_nan_field_witness:
  "length [[NaN, NaN], [NaN, NaN]] = length [- (1 / 2), 1 / 2, 3 / 2 :: real] - 1
   \<and> list_all (\<lambda>r. length r = length [- (1 / 2), 1 / 2, 3 / 2 :: real] - 1
                    \<and> list_all (\<lambda>v. v = NaN) r) [[NaN, NaN], [NaN, NaN]]
   \<and> density2d_locals \<lparr>ncols = 2, rows = [[5, 5], [7, 7]]\<rparr> [0, 1]
         [- (1 / 2), 1 / 2, 3 / 2] (1 / 16) (3 / 4) = Inl IndexError_Nidx
   \<and> (\<forall>trace. density2d trace \<lparr>ncols = 2, rows = [[5, 5], [7, 7]]\<rparr> [0, 1]
         [- (1 / 2), 1 / 2, 3 / 2] (1 / 16) (3 / 4) = Inl IndexError_Nidx)"
  using zero_histogram_gives_nan_field [OF ex_ranked_outside] by simp




text \<open>
  C5, as stated, fails. Lines 147 to 149 take the ceiling of both ends and
  \<^verbatim>\<open>np.mgrid[s_ind:e_ind]\<close> stops before \<^verbatim>\<open>e_ind\<close>. For the edges \<open>-0.5, 0.5, 1.5\<close> the
  coordinates along each axis are \<open>0, 1\<close>, one for each bin; from the floor of the first
  edge to the ceiling of the last they would be \<open>-1, 0, 1, 2\<close>.
\<close>

theorem contour_grid_is_not_floor_to_ceiling:
  "density2d_locals \<lparr>ncols = 2, rows = [[0, 0], [0, 0], [1, 1]]\<rparr> [0, 1]
      [- (1 / 2), 1 / 2, 3 / 2] (1 / 16) (1 / 2)
   = Inr \<lparr>g_Nidx = 0, g_accepted = {(0, 0)}, g_mask = [True, True, False],
          g_gated_data = [[0, 0], [0, 0]], g_x = [[0, 0], [1, 1]], g_y = [[0, 1], [0, 1]],
          g_D = [[Fin (2 / 3), Fin 0], [Fin 0, Fin (1 / 3)]], g_level = Fin (2 / 3)\<rparr>
   \<and> map real_of_int [\<lfloor>- (1 / 2) :: real\<rfloor>..\<lceil>3 / 2 :: real\<rceil>] = [- 1, 0, 1, 2]
   \<and> map hd [[0, 0], [1, 1 :: real]] \<noteq> map real_of_int [\<lfloor>- (1 / 2) :: real\<rfloor>..\<lceil>3 / 2 :: real\<rceil>]
   \<and> [[0, 1], [0, 1 :: real]] ! 0 \<noteq> map real_of_int [\<lfloor>- (1 / 2) :: real\<rfloor>..\<lceil>3 / 2 :: real\<rceil>]"
proof -
  have f: "\<lfloor>- (1 / 2) :: real\<rfloor> = - 1" by (rule floor_unique) simp_all
  have c: "\<lceil>3 / 2 :: real\<rceil> = 2" by (rule ceiling_unique) simp_all
  have u: "[- 1..2 :: int] = [- 1, 0, 1, 2]"
    by (simp add: upto.simps[of "- 1" 2] upto.simps[of 0 2] upto.simps[of 1 2]
          upto.simps[of 2 2] upto.simps[of 3 2])
  show ?thesis unfolding f c u using ex_locals_half by simp
qed

text \<open>
  C5, amended: the contour tracer is called with the normalized blurred histogram and two
  coordinate grids of integer steps that run from the ceiling of the first bin edge up
  to, and not including, the ceiling of the last bin edge: with \<open>s = \<lceil>bins[0]\<rceil>\<close> and
  \<open>e = \<lceil>bins[-1]\<rceil>\<close> both grids are \<open>e - s\<close> by \<open>e - s\<close>, \<open>x[i][j] = s + i\<close> and
  \<open>y[i][j] = s + j\<close>.
\<close>

theorem contour_grid_runs_between_ceilings:
  assumes L: "density2d_locals data channels bins sigma gate_fraction = Inr L"
  shows "length (g_x L) = nat (\<lceil>last bins\<rceil> - \<lceil>bins ! 0\<rceil>)
       \<and> length (g_y L) = nat (\<lceil>last bins\<rceil> - \<lceil>bins ! 0\<rceil>)
       \<and> (\<forall>i<nat (\<lceil>last bins\<rceil> - \<lceil>bins ! 0\<rceil>).
             length (g_x L ! i) = nat (\<lceil>last bins\<rceil> - \<lceil>bins ! 0\<rceil>)
           \<and> length (g_y L ! i) = nat (\<lceil>last bins\<rceil> - \<lceil>bins ! 0\<rceil>)
           \<and> (\<forall>j<nat (\<lceil>last bins\<rceil> - \<lceil>bins ! 0\<rceil>).
                 g_x L ! i ! j = real_of_int (\<lceil>bins ! 0\<rceil> + int i)
               \<and> g_y L ! i ! j = real_of_int (\<lceil>bins ! 0\<rceil> + int j)))
       \<and> (\<exists>R. density2d_ranked data channels bins sigma gate_fraction = Inr R
              \<and> g_D L = normalize (gaussian_filter sigma (map (map real) (r_H R))))
       \<and> (\<forall>trace. density2d trace data channels bins sigma gate_fraction
             = (case trace (g_x L) (g_y L) (g_D L) (g_level L) of
                  None \<Rightarrow> Inl CntrError
                | Some tr \<Rightarrow>
                    (case collect_contours tr (length tr div 2) [0..<length tr div 2] [] of
                       Inl e \<Rightarrow> Inl e
                     | Inr cntr \<Rightarrow> Inr (g_gated_data L, cntr))))"
proof -
  from L obtain R where R: "density2d_ranked data channels bins sigma gate_fraction = Inr R"
    and S: "select_and_gate data bins R = Inr L" by (rule density2d_locals_Inr)
  note x = select_and_gate_Inr(6)[OF S]
  note y = select_and_gate_Inr(7)[OF S]
  let ?m = "nat (\<lceil>last bins\<rceil> - \<lceil>bins ! 0\<rceil>)"
  have D: "g_D L = normalize (gaussian_filter sigma (map (map real) (r_H R)))"
    using select_and_gate_Inr(8)[OF S] ranked_D(1)[OF R] by simp
  have call: "density2d trace data channels bins sigma gate_fraction
             = (case trace (g_x L) (g_y L) (g_D L) (g_level L) of
                  None \<Rightarrow> Inl CntrError
                | Some tr \<Rightarrow>
                    (case collect_contours tr (length tr div 2) [0..<length tr div 2] [] of
                       Inl e \<Rightarrow> Inl e
                     | Inr cntr \<Rightarrow> Inr (g_gated_data L, cntr)))" for trace
    unfolding density2d_def using L by simp
  have len: "length (g_x L) = ?m" "length (g_y L) = ?m"
    unfolding x y by (rule mgrid_length)+
  have grid: "length (g_x L ! i) = ?m \<and> length (g_y L ! i) = ?m
           \<and> (\<forall>j<?m. g_x L ! i ! j = real_of_int (\<lceil>bins ! 0\<rceil> + int i)
                    \<and> g_y L ! i ! j = real_of_int (\<lceil>bins ! 0\<rceil> + int j))"
    if i: "i < ?m" for i
  proof (intro conjI allI impI)
    show "length (g_x L ! i) = ?m" unfolding x using i i by (rule mgrid_nth(3))
    show "length (g_y L ! i) = ?m" unfolding y using i i by (rule mgrid_nth(4))
    fix j assume j: "j < ?m"
    show "g_x L ! i ! j = real_of_int (\<lceil>bins ! 0\<rceil> + int i)"
      unfolding x using i j by (rule mgrid_nth(1))
    show "g_y L ! i ! j = real_of_int (\<lceil>bins ! 0\<rceil> + int j)"
      unfolding y using i j by (rule mgrid_nth(2))
  qed
  from len grid R D call show ?thesis by blast
qed

theorem contour_grid_runs_between_ceilings_witness:
  "length [[0, 0], [1, 1 :: real]] = nat (\<lceil>last [- (1 / 2), 1 / 2, 3 / 2 :: real]\<rceil> - \<lceil>[- (1 / 2), 1 / 2, 3 / 2 :: real] ! 0\<rceil>)
   \<and> list_all (\<lambda>i. list_all (\<lambda>j.
          [[0, 0], [1, 1 :: real]] ! i ! j
            = real_of_int (\<lceil>[- (1 / 2), 1 / 2, 3 / 2 :: real] ! 0\<rceil> + int i)
        \<and> [[0, 1], [0, 1 :: real]] ! i ! j
            = real_of_int (\<lceil>[- (1 / 2), 1 / 2, 3 / 2 :: real] ! 0\<rceil> + int j))
        [0..<nat (\<lceil>last [- (1 / 2), 1 / 2, 3 / 2 :: real]\<rceil> - \<lceil>[- (1 / 2), 1 / 2, 3 / 2 :: real] ! 0\<rceil>)])
        [0..<nat (\<lceil>last [- (1 / 2), 1 / 2, 3 / 2 :: real]\<rceil> - \<lceil>[- (1 / 2), 1 / 2, 3 / 2 :: real] ! 0\<rceil>)]
   \<and> (\<forall>trace. density2d trace \<lparr>ncols = 2, rows = [[0, 0], [0, 0], [1, 1]]\<rparr> [0, 1]
          [- (1 / 2), 1 / 2, 3 / 2] (1 / 16) (1 / 2)
        = (case trace [[0, 0], [1, 1]] [[0, 1], [0, 1]]
                  [[Fin (2 / 3), Fin 0], [Fin 0, Fin (1 / 3)]] (Fin (2 / 3)) of
             None \<Rightarrow> Inl CntrError
           | Some tr \<Rightarrow>
               (case collect_contours tr (length tr div 2) [0..<length tr div 2] [] of
                  Inl e \<Rightarrow> Inl e
                | Inr cntr \<Rightarrow> Inr ([[0, 0], [0, 0]], cntr))))"
  using contour_grid_runs_between_ceilings [OF ex_locals_half]
  by (simp only: gate_locals.select_convs list_all_iff set_upt atLeastLessThan_iff Ball_def) blast

text \<open>
  C1, on the code. Line 142 is \<^verbatim>\<open>tuple(event) in accepted\<close>: it looks the two channel
  values of the event up among the accepted index pairs and does not bin them again. Two
  events at \<open>(0.25, 0.25)\<close> on the edges \<open>-0.5, 0.5, 1.5\<close>, fraction \<open>0.75\<close>: both are
  counted in cell \<open>(0,0)\<close>, the cell is accepted, and neither event is in the gated
  output, because \<open>(0.25, 0.25)\<close> is not the pair \<open>(0, 0)\<close>.
\<close>

theorem gate_looks_up_values_not_bins:
  "density2d_ranked \<lparr>ncols = 2, rows = [[1 / 4, 1 / 4], [1 / 4, 1 / 4]]\<rparr> [0, 1]
      [- (1 / 2), 1 / 2, 3 / 2] (1 / 16) (3 / 4)
   = Inr \<lparr>r_data_ch = [[1 / 4, 1 / 4], [1 / 4, 1 / 4]], r_n = 2,
          r_H = [[2, 0], [0, 0]], r_bH = [[2, 0], [0, 0]],
          r_D = [[Fin 1, Fin 0], [Fin 0, Fin 0]],
          r_vD = [Fin 1, Fin 0, Fin 0, Fin 0],
          r_vH = [2, 0, 0, 0], r_sidx = [0, 1, 2, 3],
          r_svH = [2, 0, 0, 0], r_csvH = [2, 2, 2, 2]\<rparr>
   \<and> density2d_locals \<lparr>ncols = 2, rows = [[1 / 4, 1 / 4], [1 / 4, 1 / 4]]\<rparr> [0, 1]
      [- (1 / 2), 1 / 2, 3 / 2] (1 / 16) (3 / 4)
   = Inr \<lparr>g_Nidx = 0, g_accepted = {(0, 0)}, g_mask = [False, False],
          g_gated_data = [], g_x = [[0, 0], [1, 1]], g_y = [[0, 1], [0, 1]],
          g_D = [[Fin 1, Fin 0], [Fin 0, Fin 0]], g_level = Fin 1\<rparr>
   \<and> (bin_number [- (1 / 2), 1 / 2, 3 / 2] (1 / 4) - 1,
        bin_number [- (1 / 2), 1 / 2, 3 / 2] (1 / 4) - 1) \<in> {(0, 0)}"
  using ex_locals_quarter ex_ranked_quarter by (simp add: bin_number_def digitize_def)

text \<open>
  C2, on the code. The same call: both events lie within the bin range, the target count
  is \<open>\<lceil>0.75 * 2\<rceil> = 2\<close>, and \<^verbatim>\<open>density2d\<close> returns no event at all (here with a contour
  library that finds no contour).
\<close>

theorem gate_can_keep_fewer_than_target:
  "density2d (\<lambda>x y D level. Some []) \<lparr>ncols = 2, rows = [[1 / 4, 1 / 4], [1 / 4, 1 / 4]]\<rparr>
      [0, 1] [- (1 / 2), 1 / 2, 3 / 2] (1 / 16) (3 / 4) = Inr ([], [])
   \<and> list_all (\<lambda>event. - (1 / 2) \<le> event ! 0 \<and> event ! 0 \<le> 3 / 2
                       \<and> - (1 / 2) \<le> event ! 1 \<and> event ! 1 \<le> 3 / 2)
        [[1 / 4, 1 / 4], [1 / 4, 1 / 4 :: real]]
   \<and> points_to_keep (3 / 4) (length [[1 / 4, 1 / 4], [1 / 4, 1 / 4 :: real]]) = Inr 2
   \<and> \<lceil>3 / 4 * real (length [[1 / 4, 1 / 4], [1 / 4, 1 / 4 :: real]])\<rceil> = 2
   \<and> int (length ([] :: real list list)) < 2"
proof -
  have "\<lceil>3 / 2 :: real\<rceil> = 2" by (rule ceiling_unique) simp_all
  then show ?thesis
    by (simp add: density2d_def ex_locals_quarter points_to_keep_def round_double_exact_3_2)
qed

end
